theory Spec2Isabelle
  imports Main
begin

section \<open>The segment lists of \<open>Heap_management.c\<close>\<close>

text \<open>
  The program keeps two singly linked lists of \<open>MemSegment\<close> nodes, \<open>availableSegs\<close>
  (free) and \<open>occupiedSegs\<close> (allocated), over a simulated heap of 1024 bytes. A node
  belongs to exactly one list at a time, so each linked list is modelled as a HOL list
  of records in link order. The C \<open>int\<close> fields are modelled as \<open>int\<close>: lemma
  \<open>reachable_bounds\<close> below shows that in every state the program can reach all
  addresses and lengths lie in \<open>0..1024\<close>, where C arithmetic and \<open>int\<close> agree.
  A pointer is modelled by its address, an \<open>int\<close>, with \<open>0\<close> for \<open>NULL\<close>.
\<close>

record MemSegment =
  startAddr :: int
  length_seg :: int
  memPtr :: int

record heap =
  simulatedHeap :: int
  availableSegs :: "MemSegment list"
  occupiedSegs :: "MemSegment list"

text \<open>
  The C functions report a failure by returning \<open>NULL\<close> (or nothing), some after
  printing a message. Each early return of the source is one constructor:
  \<open>InvalidSize\<close> is the return after "Invalid memory request size", \<open>OutOfMemory\<close>
  the silent \<open>return NULL\<close> when the scan reaches the end of the free list,
  \<open>NodeAllocFailed\<close> the return after "Allocation failed" (\<open>malloc\<close> of the new node
  returned \<open>NULL\<close>), \<open>NullHandle\<close> the return after "Null pointer cannot be freed",
  \<open>UnknownHandle\<close> the return after "Attempted to free unallocated memory".
\<close>

datatype error = InvalidSize | OutOfMemory | NodeAllocFailed | NullHandle | UnknownHandle

text \<open>
  \<open>setupHeap\<close>: \<open>heapPtr\<close> is the address \<open>malloc(1024)\<close> returned, a natural number
  (\<open>0\<close> when it failed), and \<open>nodeOk\<close> tells whether the \<open>malloc\<close> of the first node
  succeeded; the program exits (\<open>None\<close>) when either failed.
\<close>

definition setupHeap :: "nat \<Rightarrow> bool \<Rightarrow> heap option" where
  "setupHeap heapPtr nodeOk =
     (if heapPtr = 0 then None
      else if \<not> nodeOk then None
      else Some \<lparr> simulatedHeap = int heapPtr,
                  availableSegs = [\<lparr> startAddr = 0, length_seg = 1024, memPtr = 0 \<rparr>],
                  occupiedSegs = [] \<rparr>)"

text \<open>
  \<open>requestMemory\<close>: the scan \<open>while (ptr != NULL && size > ptr->length)\<close> leaves the
  nodes it passed before \<open>prev\<close> (\<open>takeWhile\<close>) and stops with \<open>ptr\<close> at the head of
  the remainder (\<open>dropWhile\<close>). \<open>nodeOk\<close> tells whether \<open>malloc\<close> of the new node
  succeeded. The new node is linked behind the last node of \<open>occupiedSegs\<close>.
\<close>

definition requestMemory :: "heap \<Rightarrow> int \<Rightarrow> bool \<Rightarrow> (error + int) \<times> heap" where
  "requestMemory s sz nodeOk =
     (if sz \<le> 0 then (Inl InvalidSize, s)
      else case dropWhile (\<lambda>p. sz > length_seg p) (availableSegs s) of
        [] \<Rightarrow> (Inl OutOfMemory, s)
      | ptr # rest \<Rightarrow>
          if \<not> nodeOk then (Inl NodeAllocFailed, s)
          else
            let newSegment = \<lparr> startAddr = startAddr ptr, length_seg = sz,
                                memPtr = simulatedHeap s + startAddr ptr \<rparr>;
                ptr' = ptr \<lparr> startAddr := startAddr ptr + sz,
                             length_seg := length_seg ptr - sz \<rparr>;
                before = takeWhile (\<lambda>p. sz > length_seg p) (availableSegs s);
                avail' = (if length_seg ptr' = 0 then before @ rest
                          else before @ ptr' # rest)
            in (Inr (memPtr newSegment),
                s \<lparr> availableSegs := avail',
                    occupiedSegs := occupiedSegs s @ [newSegment] \<rparr>))"

text \<open>
  \<open>combineFreeSegments\<close>: \<open>ptr\<close> is the head of the argument. When it touches its
  successor the successor's length is added to it, the successor is unlinked, and the
  loop runs again with the same \<open>ptr\<close>; otherwise \<open>ptr\<close> advances.
\<close>

fun combineSegs :: "MemSegment list \<Rightarrow> MemSegment list" where
  "combineSegs (p # n # rest) =
     (if startAddr p + length_seg p = startAddr n
      then combineSegs (p \<lparr> length_seg := length_seg p + length_seg n \<rparr> # rest)
      else p # combineSegs (n # rest))"
| "combineSegs xs = xs"

definition combineFreeSegments :: "heap \<Rightarrow> heap" where
  "combineFreeSegments s = s \<lparr> availableSegs := combineSegs (availableSegs s) \<rparr>"

text \<open>
  \<open>releaseMemory\<close>: the first scan stops at the first allocated node whose \<open>memPtr\<close>
  is the argument; the node is unlinked, linked into the free list before the first
  free node whose \<open>startAddr\<close> is not below its own, and the free list is coalesced.
\<close>

definition releaseMemory :: "heap \<Rightarrow> int \<Rightarrow> (error + unit) \<times> heap" where
  "releaseMemory s p =
     (if p = 0 then (Inl NullHandle, s)
      else case dropWhile (\<lambda>q. memPtr q \<noteq> p) (occupiedSegs s) of
        [] \<Rightarrow> (Inl UnknownHandle, s)
      | ptr1 # rest1 \<Rightarrow>
          let occ' = takeWhile (\<lambda>q. memPtr q \<noteq> p) (occupiedSegs s) @ rest1;
              avail' = takeWhile (\<lambda>c. startAddr c < startAddr ptr1) (availableSegs s)
                       @ ptr1
                       # dropWhile (\<lambda>c. startAddr c < startAddr ptr1) (availableSegs s)
          in (Inr (),
              combineFreeSegments (s \<lparr> occupiedSegs := occ', availableSegs := avail' \<rparr>)))"

text \<open>
  The calls \<open>main\<close> makes: a request with the size read from the input (and the
  outcome of the node's \<open>malloc\<close>), or a release of a pointer.
\<close>

datatype call = Request int bool | Release int

fun step :: "heap \<Rightarrow> call \<Rightarrow> heap" where
  "step s (Request sz nodeOk) = snd (requestMemory s sz nodeOk)"
| "step s (Release p) = snd (releaseMemory s p)"

fun exec :: "heap \<Rightarrow> call list \<Rightarrow> heap" where
  "exec s [] = s"
| "exec s (c # cs) = exec (step s c) cs"

subsection \<open>Ranges and the ledger invariant\<close>

text \<open>
  The addresses a segment stands for, and how many segments of a list hold an address.
\<close>

definition segRange :: "MemSegment \<Rightarrow> int set" where
  "segRange x = {startAddr x ..< startAddr x + length_seg x}"

definition cover :: "MemSegment list \<Rightarrow> int \<Rightarrow> nat" where
  "cover xs a = length (filter (\<lambda>x. a \<in> segRange x) xs)"

text \<open>\<open>gapped x y\<close>: \<open>x\<close> ends strictly below the start of \<open>y\<close>.\<close>

definition gapped :: "MemSegment \<Rightarrow> MemSegment \<Rightarrow> bool" where
  "gapped x y \<longleftrightarrow> startAddr x + length_seg x < startAddr y"

text \<open>\<open>weak x y\<close>: \<open>x\<close> ends at or below the start of \<open>y\<close>.\<close>

definition weak :: "MemSegment \<Rightarrow> MemSegment \<Rightarrow> bool" where
  "weak x y \<longleftrightarrow> startAddr x + length_seg x \<le> startAddr y"

text \<open>\<open>touching x y\<close>: the test of \<open>combineFreeSegments\<close>, \<open>x\<close> ends where \<open>y\<close> starts.\<close>

definition touching :: "MemSegment \<Rightarrow> MemSegment \<Rightarrow> bool" where
  "touching x y \<longleftrightarrow> startAddr x + length_seg x = startAddr y"

definition ledger_inv :: "heap \<Rightarrow> bool" where
  "ledger_inv s \<longleftrightarrow>
     (\<forall>x \<in> set (availableSegs s). 0 < length_seg x)
     \<and> (\<forall>x \<in> set (occupiedSegs s). 0 < length_seg x)
     \<and> sorted_wrt gapped (availableSegs s)
     \<and> (\<forall>x \<in> set (occupiedSegs s). memPtr x = simulatedHeap s + startAddr x)
     \<and> (\<forall>a. cover (availableSegs s @ occupiedSegs s) a = (if 0 \<le> a \<and> a < 1024 then 1 else 0))"

text \<open>
  The state the program is in after \<open>setupHeap\<close> succeeded and \<open>main\<close> made the
  calls \<open>cs\<close> satisfies \<open>ledger_inv\<close> (lemma \<open>exec_inv\<close> below).
\<close>

text \<open>The range a segment stands for, as the pair the display prints.\<close>

definition segPair :: "MemSegment \<Rightarrow> int \<times> int" where
  "segPair x = (startAddr x, length_seg x)"

text \<open>
  A ghost record of the calls: the handles that \<open>requestMemory\<close> returned and that
  no later successful \<open>releaseMemory\<close> took back, in the order they were returned,
  starting from the record \<open>acc\<close>.
\<close>

fun live :: "heap \<Rightarrow> call list \<Rightarrow> int list \<Rightarrow> int list" where
  "live s [] acc = acc"
| "live s (Request sz nodeOk # cs) acc =
     (case requestMemory s sz nodeOk of
        (Inr h, s') \<Rightarrow> live s' cs (acc @ [h])
      | (Inl e, s') \<Rightarrow> live s' cs acc)"
| "live s (Release p # cs) acc =
     (case releaseMemory s p of
        (Inr u, s') \<Rightarrow> live s' cs (remove1 p acc)
      | (Inl e, s') \<Rightarrow> live s' cs acc)"

section \<open>Lemmas on ranges and on the coalescing pass\<close>

lemma cover_Nil [simp]: "cover [] a = 0"
  by (simp add: cover_def)

lemma cover_Cons: "cover (x # xs) a = (if a \<in> segRange x then 1 else 0) + cover xs a"
  by (simp add: cover_def)

lemma cover_append: "cover (xs @ ys) a = cover xs a + cover ys a"
  by (simp add: cover_def)

lemma cover_mem: "x \<in> set xs \<Longrightarrow> a \<in> segRange x \<Longrightarrow> 1 \<le> cover xs a"
  by (induction xs) (auto simp: cover_Cons)

lemma combineSegs_cover:
  "\<forall>x \<in> set xs. 0 \<le> length_seg x \<Longrightarrow> cover (combineSegs xs) a = cover xs a"
proof (induction xs rule: combineSegs.induct)
  case (1 p n rest)
  show ?case
  proof (cases "startAddr p + length_seg p = startAddr n")
    case True
    let ?p = "p \<lparr> length_seg := length_seg p + length_seg n \<rparr>"
    have "cover (combineSegs (?p # rest)) a = cover (?p # rest) a"
      using 1 True by simp
    moreover have "(a \<in> segRange ?p) = (a \<in> segRange p \<or> a \<in> segRange n)"
      and "\<not> (a \<in> segRange p \<and> a \<in> segRange n)"
      using True 1(3) by (auto simp: segRange_def)
    ultimately show ?thesis using True by (auto simp: cover_Cons)
  next
    case False
    then show ?thesis using 1 by (simp add: cover_Cons)
  qed
qed simp_all

lemma combineSegs_pos:
  "\<forall>x \<in> set xs. 0 < length_seg x \<Longrightarrow> \<forall>x \<in> set (combineSegs xs). 0 < length_seg x"
  by (induction xs rule: combineSegs.induct) (auto split: if_splits)

lemma combineSegs_starts:
  "startAddr ` set (combineSegs xs) \<subseteq> startAddr ` set xs"
  by (induction xs rule: combineSegs.induct) (auto split: if_splits)

lemma combineSegs_gapped:
  "sorted_wrt weak xs \<Longrightarrow> \<forall>x \<in> set xs. 0 < length_seg x \<Longrightarrow> sorted_wrt gapped (combineSegs xs)"
proof (induction xs rule: combineSegs.induct)
  case (1 p n rest)
  show ?case
  proof (cases "startAddr p + length_seg p = startAddr n")
    case True
    let ?p = "p \<lparr> length_seg := length_seg p + length_seg n \<rparr>"
    have "sorted_wrt weak rest" using 1(3) by simp
    moreover have "\<forall>y \<in> set rest. weak n y" using 1(3) by simp
    then have "\<forall>y \<in> set rest. weak ?p y" using True by (auto simp: weak_def)
    ultimately have "sorted_wrt weak (?p # rest)" by simp
    moreover have "\<forall>x \<in> set (?p # rest). 0 < length_seg x" using 1(4) by auto
    ultimately show ?thesis using 1(1) True by simp
  next
    case False
    have t: "sorted_wrt gapped (combineSegs (n # rest))" using 1 False by simp
    have "\<forall>y \<in> set (combineSegs (n # rest)). gapped p y"
    proof
      fix y assume "y \<in> set (combineSegs (n # rest))"
      then obtain z where z: "z \<in> set (n # rest)" "startAddr z = startAddr y"
        using combineSegs_starts[of "n # rest"] by (metis (no_types, lifting) image_iff subsetD)
      have "\<forall>y \<in> set rest. weak n y" "0 < length_seg n" "weak p n" using 1(3,4) by simp_all
      then have "startAddr n \<le> startAddr z" "startAddr p + length_seg p \<le> startAddr n"
        using z(1) by (auto simp: weak_def)
      then show "gapped p y" using False z(2) by (simp add: gapped_def)
    qed
    then show ?thesis using t False by simp
  qed
qed simp_all


lemma requestMemory_fail:
  "sz \<le> 0 \<or> \<not> ok \<or> dropWhile (\<lambda>p. sz > length_seg p) (availableSegs s) = [] \<Longrightarrow>
   snd (requestMemory s sz ok) = s"
  by (auto simp: requestMemory_def simp del: dropWhile_eq_Nil_conv split: list.splits)

lemma requestMemory_ok:
  assumes "0 < sz" "ok" "dropWhile (\<lambda>p. sz > length_seg p) (availableSegs s) = ptr # rest"
  shows "requestMemory s sz ok =
     (Inr (simulatedHeap s + startAddr ptr),
      s \<lparr> availableSegs :=
            takeWhile (\<lambda>p. sz > length_seg p) (availableSegs s)
            @ (if length_seg ptr = sz then []
               else [ptr \<lparr> startAddr := startAddr ptr + sz, length_seg := length_seg ptr - sz \<rparr>])
            @ rest,
          occupiedSegs := occupiedSegs s
            @ [\<lparr> startAddr = startAddr ptr, length_seg = sz,
                 memPtr = simulatedHeap s + startAddr ptr \<rparr>] \<rparr>)"
  using assms by (simp add: requestMemory_def Let_def)

lemma requestMemory_inv:
  assumes inv: "ledger_inv s"
  shows "ledger_inv (snd (requestMemory s sz ok))"
proof (cases "sz \<le> 0 \<or> \<not> ok \<or> dropWhile (\<lambda>p. sz > length_seg p) (availableSegs s) = []")
  case True
  then show ?thesis using inv by (simp add: requestMemory_fail)
next
  case False
  then obtain ptr rest where d: "dropWhile (\<lambda>p. sz > length_seg p) (availableSegs s) = ptr # rest"
    by (cases "dropWhile (\<lambda>p. sz > length_seg p) (availableSegs s)") auto
  define before where "before = takeWhile (\<lambda>p. sz > length_seg p) (availableSegs s)"
  define ptr' where "ptr' = ptr \<lparr> startAddr := startAddr ptr + sz, length_seg := length_seg ptr - sz \<rparr>"
  define new where "new = \<lparr> startAddr = startAddr ptr, length_seg = sz,
                 memPtr = simulatedHeap s + startAddr ptr \<rparr>"
  define mid where "mid = (if length_seg ptr = sz then [] else [ptr'])"
  have av: "availableSegs s = before @ ptr # rest" and fit: "sz \<le> length_seg ptr"
    using d by (auto simp: dropWhile_eq_Cons_conv before_def)
  have pos: "0 < sz" using False by simp
  have s': "snd (requestMemory s sz ok) =
      s \<lparr> availableSegs := before @ mid @ rest, occupiedSegs := occupiedSegs s @ [new] \<rparr>"
    using requestMemory_ok[OF pos _ d] False
    by (simp add: before_def mid_def ptr'_def new_def)
  have i2: "\<forall>x \<in> set (availableSegs s). 0 < length_seg x"
    and i3: "\<forall>x \<in> set (occupiedSegs s). 0 < length_seg x"
    and i4: "sorted_wrt gapped (availableSegs s)"
    and i5: "\<forall>x \<in> set (occupiedSegs s). memPtr x = simulatedHeap s + startAddr x"
    and i6: "\<forall>a. cover (availableSegs s @ occupiedSegs s) a = (if 0 \<le> a \<and> a < 1024 then 1 else 0)"
    using inv by (simp_all add: ledger_inv_def)
  have midpos: "\<forall>x \<in> set mid. 0 < length_seg x"
    using fit by (auto simp: mid_def ptr'_def)
  have j2: "\<forall>x \<in> set (before @ mid @ rest). 0 < length_seg x"
    using i2 midpos by (auto simp: av)
  have j3: "\<forall>x \<in> set (occupiedSegs s @ [new]). 0 < length_seg x"
    using i3 pos by (auto simp: new_def)
  have g1: "\<forall>x \<in> set before. \<forall>y \<in> set mid. gapped x y"
  proof (intro ballI)
    fix x y assume "x \<in> set before" "y \<in> set mid"
    then have "gapped x ptr" "y = ptr'" using i4 by (auto simp: av sorted_wrt_append mid_def split: if_splits)
    then show "gapped x y" using pos by (simp add: gapped_def ptr'_def)
  qed
  have g2: "\<forall>x \<in> set mid. \<forall>y \<in> set rest. gapped x y"
  proof (intro ballI)
    fix x y assume "x \<in> set mid" "y \<in> set rest"
    then have "gapped ptr y" "x = ptr'" using i4 by (auto simp: av sorted_wrt_append mid_def split: if_splits)
    then show "gapped x y" by (simp add: gapped_def ptr'_def)
  qed
  have g3: "\<forall>x \<in> set before. \<forall>y \<in> set rest. gapped x y" "sorted_wrt gapped before" "sorted_wrt gapped rest"
    using i4 by (auto simp: av sorted_wrt_append)
  have g4: "sorted_wrt gapped mid" by (simp add: mid_def)
  have j4: "sorted_wrt gapped (before @ mid @ rest)"
    using g1 g2 g3 g4 by (auto simp: sorted_wrt_append)
  have j5: "\<forall>x \<in> set (occupiedSegs s @ [new]). memPtr x = simulatedHeap s + startAddr x"
    using i5 by (auto simp: new_def)
  have j6: "cover ((before @ mid @ rest) @ occupiedSegs s @ [new]) a = (if 0 \<le> a \<and> a < 1024 then 1 else 0)" for a
  proof -
    have "cover mid a + cover [new] a = cover [ptr] a"
      using fit pos by (auto simp: mid_def cover_Cons segRange_def ptr'_def new_def)
    then have "cover ((before @ mid @ rest) @ occupiedSegs s @ [new]) a = cover (availableSegs s @ occupiedSegs s) a"
      by (simp add: cover_append av cover_Cons)
    then show ?thesis using i6 by simp
  qed
  show ?thesis
    unfolding s' ledger_inv_def using j2 j3 j4 j5 j6 by simp
qed


lemma releaseMemory_fail:
  "p = 0 \<or> dropWhile (\<lambda>q. memPtr q \<noteq> p) (occupiedSegs s) = [] \<Longrightarrow>
   snd (releaseMemory s p) = s"
  by (auto simp: releaseMemory_def simp del: dropWhile_eq_Nil_conv split: list.splits)

lemma releaseMemory_ok:
  assumes "p \<noteq> 0" "dropWhile (\<lambda>q. memPtr q \<noteq> p) (occupiedSegs s) = ptr1 # rest1"
  shows "releaseMemory s p =
     (Inr (),
      s \<lparr> occupiedSegs := takeWhile (\<lambda>q. memPtr q \<noteq> p) (occupiedSegs s) @ rest1,
          availableSegs := combineSegs
            (takeWhile (\<lambda>c. startAddr c < startAddr ptr1) (availableSegs s)
             @ ptr1 # dropWhile (\<lambda>c. startAddr c < startAddr ptr1) (availableSegs s)) \<rparr>)"
  using assms by (simp add: releaseMemory_def Let_def combineFreeSegments_def)

lemma dropWhile_start_ge:
  "sorted_wrt gapped xs \<Longrightarrow> \<forall>x \<in> set xs. 0 < length_seg x \<Longrightarrow>
   y \<in> set (dropWhile (\<lambda>c. startAddr c < v) xs) \<Longrightarrow> v \<le> startAddr y"
proof (induction xs)
  case Nil
  then show ?case by simp
next
  case (Cons x xs)
  show ?case
  proof (cases "startAddr x < v")
    case True
    then show ?thesis using Cons by simp
  next
    case False
    then have "y = x \<or> y \<in> set xs" using Cons.prems(3) by simp
    moreover have "\<forall>z \<in> set xs. gapped x z" "0 < length_seg x" using Cons.prems(1,2) by simp_all
    ultimately show ?thesis using False by (auto simp: gapped_def)
  qed
qed

lemma gapped_imp_weak: "sorted_wrt gapped xs \<Longrightarrow> sorted_wrt weak xs"
  by (rule sorted_wrt_mono_rel[where P = gapped]) (simp_all add: gapped_def weak_def)

lemma releaseMemory_inv:
  assumes inv: "ledger_inv s"
  shows "ledger_inv (snd (releaseMemory s p))"
proof (cases "p = 0 \<or> dropWhile (\<lambda>q. memPtr q \<noteq> p) (occupiedSegs s) = []")
  case True
  then show ?thesis using inv by (simp add: releaseMemory_fail)
next
  case False
  then obtain ptr1 rest1 where d: "dropWhile (\<lambda>q. memPtr q \<noteq> p) (occupiedSegs s) = ptr1 # rest1"
    by (cases "dropWhile (\<lambda>q. memPtr q \<noteq> p) (occupiedSegs s)") auto
  define b1 where "b1 = takeWhile (\<lambda>q. memPtr q \<noteq> p) (occupiedSegs s)"
  define fb where "fb = takeWhile (\<lambda>c. startAddr c < startAddr ptr1) (availableSegs s)"
  define fr where "fr = dropWhile (\<lambda>c. startAddr c < startAddr ptr1) (availableSegs s)"
  have oc: "occupiedSegs s = b1 @ ptr1 # rest1"
    using d by (auto simp: dropWhile_eq_Cons_conv b1_def)
  have av: "availableSegs s = fb @ fr" by (simp add: fb_def fr_def)
  have s': "snd (releaseMemory s p) =
      s \<lparr> occupiedSegs := b1 @ rest1, availableSegs := combineSegs (fb @ ptr1 # fr) \<rparr>"
    using releaseMemory_ok[OF _ d] False by (simp add: b1_def fb_def fr_def)
  have i2: "\<forall>x \<in> set (availableSegs s). 0 < length_seg x"
    and i3: "\<forall>x \<in> set (occupiedSegs s). 0 < length_seg x"
    and i4: "sorted_wrt gapped (availableSegs s)"
    and i5: "\<forall>x \<in> set (occupiedSegs s). memPtr x = simulatedHeap s + startAddr x"
    and i6: "\<And>a. cover (availableSegs s @ occupiedSegs s) a = (if 0 \<le> a \<and> a < 1024 then 1 else 0)"
    using inv by (simp_all add: ledger_inv_def)
  have p1: "0 < length_seg ptr1" using i3 by (simp add: oc)
  have excl: "cover (availableSegs s) a + cover (occupiedSegs s) a \<le> 1" for a
    using i6[of a] by (simp add: cover_append)
  have inpos: "\<forall>x \<in> set (fb @ ptr1 # fr). 0 < length_seg x"
    using i2 p1 by (auto simp: av)
  have w1: "\<forall>x \<in> set fb. weak x ptr1"
  proof
    fix x assume x: "x \<in> set fb"
    then have lt: "startAddr x < startAddr ptr1" by (auto simp: fb_def dest: set_takeWhileD)
    have "startAddr ptr1 \<in> segRange ptr1" using p1 by (simp add: segRange_def)
    then have "1 \<le> cover (occupiedSegs s) (startAddr ptr1)" by (intro cover_mem[of ptr1]) (simp_all add: oc)
    then have "cover (availableSegs s) (startAddr ptr1) = 0" using excl[of "startAddr ptr1"] by simp
    then have "startAddr ptr1 \<notin> segRange x" using cover_mem[of x "availableSegs s" "startAddr ptr1"] x
      by (auto simp: av)
    then show "weak x ptr1" using lt by (simp add: weak_def segRange_def)
  qed
  have w2: "\<forall>y \<in> set fr. weak ptr1 y"
  proof
    fix y assume y: "y \<in> set fr"
    then have ge: "startAddr ptr1 \<le> startAddr y" using dropWhile_start_ge[OF i4 i2] by (simp add: fr_def)
    have "0 < length_seg y" using y i2 by (simp add: av)
    then have "startAddr y \<in> segRange y" by (simp add: segRange_def)
    then have "1 \<le> cover (availableSegs s) (startAddr y)" using y by (intro cover_mem[of y]) (simp_all add: av)
    then have "cover (occupiedSegs s) (startAddr y) = 0" using excl[of "startAddr y"] by simp
    then have "startAddr y \<notin> segRange ptr1" using cover_mem[of ptr1 "occupiedSegs s" "startAddr y"]
      by (auto simp: oc)
    then show "weak ptr1 y" using ge by (simp add: weak_def segRange_def)
  qed
  have "sorted_wrt weak (fb @ fr)" using gapped_imp_weak[OF i4] by (simp add: av)
  then have w: "sorted_wrt weak (fb @ ptr1 # fr)" using w1 w2 by (auto simp: sorted_wrt_append)
  have j2: "\<forall>x \<in> set (combineSegs (fb @ ptr1 # fr)). 0 < length_seg x"
    using combineSegs_pos[OF inpos] .
  have j3: "\<forall>x \<in> set (b1 @ rest1). 0 < length_seg x" using i3 by (auto simp: oc)
  have j4: "sorted_wrt gapped (combineSegs (fb @ ptr1 # fr))"
    using combineSegs_gapped[OF w inpos] .
  have j5: "\<forall>x \<in> set (b1 @ rest1). memPtr x = simulatedHeap s + startAddr x"
    using i5 by (auto simp: oc)
  have j6: "cover (combineSegs (fb @ ptr1 # fr) @ b1 @ rest1) a = (if 0 \<le> a \<and> a < 1024 then 1 else 0)" for a
  proof -
    have "\<forall>x \<in> set (fb @ ptr1 # fr). 0 \<le> length_seg x" using inpos by force
    then have "cover (combineSegs (fb @ ptr1 # fr)) a = cover (fb @ ptr1 # fr) a"
      by (rule combineSegs_cover)
    then have "cover (combineSegs (fb @ ptr1 # fr) @ b1 @ rest1) a = cover (availableSegs s @ occupiedSegs s) a"
      by (simp add: cover_append av oc cover_Cons)
    then show ?thesis using i6 by simp
  qed
  show ?thesis
    unfolding s' ledger_inv_def using j2 j3 j4 j5 j6 by simp
qed

lemma setupHeap_inv: "setupHeap heapPtr nodeOk = Some s0 \<Longrightarrow> ledger_inv s0"
  by (auto simp: setupHeap_def ledger_inv_def cover_Cons segRange_def split: if_splits)

lemma exec_inv: "ledger_inv s \<Longrightarrow> ledger_inv (exec s cs)"
proof (induction cs arbitrary: s)
  case Nil
  then show ?case by simp
next
  case (Cons c cs)
  have "ledger_inv (step s c)"
    using Cons.prems by (cases c) (simp_all add: requestMemory_inv releaseMemory_inv)
  then show ?case using Cons.IH by simp
qed

lemma exec_reach_inv: "setupHeap heapPtr nodeOk = Some s0 \<Longrightarrow> ledger_inv (exec s0 cs)"
  by (rule exec_inv) (rule setupHeap_inv)

lemma cover_two:
  "i < length xs \<Longrightarrow> j < length xs \<Longrightarrow> i \<noteq> j \<Longrightarrow> a \<in> segRange (xs ! i) \<Longrightarrow> a \<in> segRange (xs ! j)
   \<Longrightarrow> 2 \<le> cover xs a"
proof (induction xs arbitrary: i j)
  case Nil
  then show ?case by simp
next
  case (Cons x xs)
  show ?case
  proof (cases i)
    case 0
    then obtain j' where j: "j = Suc j'" using Cons.prems(3) by (cases j) auto
    then have "xs ! j' \<in> set xs" "a \<in> segRange (xs ! j')" using Cons.prems by auto
    then have "1 \<le> cover xs a" by (rule cover_mem)
    then show ?thesis using 0 Cons.prems(4) by (simp add: cover_Cons)
  next
    case (Suc i')
    show ?thesis
    proof (cases j)
      case 0
      have "xs ! i' \<in> set xs" "a \<in> segRange (xs ! i')" using Cons.prems Suc by auto
      then have "1 \<le> cover xs a" by (rule cover_mem)
      then show ?thesis using 0 Cons.prems(5) by (simp add: cover_Cons)
    next
      case (Suc j')
      then have "2 \<le> cover xs a" using Cons.IH[of i' j'] Cons.prems \<open>i = Suc i'\<close> by simp
      then show ?thesis by (simp add: cover_Cons)
    qed
  qed
qed

lemma cover_pos_iff: "0 < cover xs a \<longleftrightarrow> (\<exists>x \<in> set xs. a \<in> segRange x)"
  by (induction xs) (auto simp: cover_Cons)

section \<open>The two lists partition the heap\<close>

text \<open>
  Claim C1. After \<open>setupHeap\<close> and any sequence of \<open>requestMemory\<close> and
  \<open>releaseMemory\<close> calls, the ranges of the free and the allocated segments together
  are exactly the addresses \<open>0..<1024\<close>, and the ranges of any two different entries
  of the two lists (free and free, allocated and allocated, free and allocated) have no
  address in common.
\<close>

theorem coverage_invariant:
  assumes "setupHeap heapPtr nodeOk = Some s0"
    and "segs = availableSegs (exec s0 cs) @ occupiedSegs (exec s0 cs)"
  shows "(\<Union>x \<in> set segs. segRange x) = {0..<1024}
       \<and> (\<forall>i < length segs. \<forall>j < length segs. i \<noteq> j \<longrightarrow> segRange (segs ! i) \<inter> segRange (segs ! j) = {})"
proof -
  have c: "cover segs a = (if 0 \<le> a \<and> a < 1024 then 1 else 0)" for a
    using exec_reach_inv[OF assms(1), of cs] assms(2) by (simp add: ledger_inv_def)
  have "(\<Union>x \<in> set segs. segRange x) = {0..<1024}"
  proof (rule set_eqI)
    fix a
    have "a \<in> (\<Union>x \<in> set segs. segRange x) \<longleftrightarrow> 0 < cover segs a" by (simp add: cover_pos_iff)
    then show "a \<in> (\<Union>x \<in> set segs. segRange x) \<longleftrightarrow> a \<in> {0..<1024}" using c[of a] by simp
  qed
  moreover have "segRange (segs ! i) \<inter> segRange (segs ! j) = {}"
    if "i < length segs" "j < length segs" "i \<noteq> j" for i j
  proof (rule ccontr)
    assume "segRange (segs ! i) \<inter> segRange (segs ! j) \<noteq> {}"
    then obtain a where "a \<in> segRange (segs ! i)" "a \<in> segRange (segs ! j)" by blast
    then have "2 \<le> cover segs a" using that by (intro cover_two[of i _ j]) simp_all
    then show False using c[of a] by (simp split: if_splits)
  qed
  ultimately show ?thesis by blast
qed

theorem coverage_invariant_witness:
  "setupHeap 4096 True =
     Some \<lparr> simulatedHeap = 4096,
            availableSegs = [\<lparr> startAddr = 0, length_seg = 1024, memPtr = 0 \<rparr>],
            occupiedSegs = [] \<rparr>
   \<and> (\<Union>x \<in> set [\<lparr> startAddr = 50, length_seg = 50, memPtr = 4096 \<rparr>,
                   \<lparr> startAddr = 300, length_seg = 724, memPtr = 0 \<rparr>,
                   \<lparr> startAddr = 100, length_seg = 200, memPtr = 4196 \<rparr>,
                   \<lparr> startAddr = 0, length_seg = 50, memPtr = 4096 \<rparr>]. segRange x) = {0..<1024}
   \<and> segRange \<lparr> startAddr = 50, length_seg = 50, memPtr = 4096 \<rparr>
       \<inter> segRange \<lparr> startAddr = 100, length_seg = 200, memPtr = 4196 \<rparr> = {}"
proof -
  let ?s0 = "\<lparr> simulatedHeap = 4096,
            availableSegs = [\<lparr> startAddr = 0, length_seg = 1024, memPtr = 0 \<rparr>],
            occupiedSegs = [] \<rparr>"
  let ?cs = "[Request 100 True, Request 200 True, Release 4096, Request 50 True]"
  let ?segs = "[\<lparr> startAddr = 50, length_seg = 50, memPtr = 4096 \<rparr>,
                   \<lparr> startAddr = 300, length_seg = 724, memPtr = 0 \<rparr>,
                   \<lparr> startAddr = 100, length_seg = 200, memPtr = 4196 \<rparr>,
                   \<lparr> startAddr = 0, length_seg = 50, memPtr = 4096 \<rparr>]"
  have h1: "setupHeap 4096 True = Some ?s0" by (simp add: setupHeap_def)
  have h2: "?segs = availableSegs (exec ?s0 ?cs) @ occupiedSegs (exec ?s0 ?cs)"
    by (simp add: requestMemory_def releaseMemory_def combineFreeSegments_def Let_def)
  have "\<forall>i<length ?segs. \<forall>j<length ?segs. i \<noteq> j \<longrightarrow> segRange (?segs ! i) \<inter> segRange (?segs ! j) = {}"
    using coverage_invariant[OF h1 h2] by blast
  then have "0 \<noteq> (2::nat) \<longrightarrow> segRange (?segs ! 0) \<inter> segRange (?segs ! 2) = {}"
    by (metis length_Cons list.size(3) numeral_2_eq_2 zero_less_Suc Suc_less_eq)
  then show ?thesis using coverage_invariant[OF h1 h2] h1 by simp
qed

section \<open>Failing calls\<close>

text \<open>
  Claim C4. In every state, \<open>requestMemory\<close> with a size that is not positive returns
  at the \<open>InvalidSize\<close> exit, and with a positive size that exceeds the length of
  every free segment at the \<open>OutOfMemory\<close> exit; both leave the state as it was.
\<close>

theorem request_failures_leave_state:
  "(sz \<le> 0 \<longrightarrow> requestMemory s sz nodeOk = (Inl InvalidSize, s))
   \<and> (0 < sz \<and> (\<forall>x \<in> set (availableSegs s). length_seg x < sz)
        \<longrightarrow> requestMemory s sz nodeOk = (Inl OutOfMemory, s))"
proof -
  have "dropWhile (\<lambda>p. sz > length_seg p) (availableSegs s) = []"
    if "\<forall>x \<in> set (availableSegs s). length_seg x < sz"
    using that by simp
  then show ?thesis by (auto simp: requestMemory_def simp del: dropWhile_eq_Nil_conv)
qed

theorem request_failures_leave_state_witness:
  "(-5::int) \<le> 0
   \<and> requestMemory \<lparr> simulatedHeap = 4096,
         availableSegs = [\<lparr> startAddr = 100, length_seg = 924, memPtr = 0 \<rparr>],
         occupiedSegs = [\<lparr> startAddr = 0, length_seg = 100, memPtr = 4096 \<rparr>] \<rparr> (-5) True
     = (Inl InvalidSize, \<lparr> simulatedHeap = 4096,
         availableSegs = [\<lparr> startAddr = 100, length_seg = 924, memPtr = 0 \<rparr>],
         occupiedSegs = [\<lparr> startAddr = 0, length_seg = 100, memPtr = 4096 \<rparr>] \<rparr>)
   \<and> (0::int) < 925
   \<and> length_seg \<lparr> startAddr = 100, length_seg = 924, memPtr = 0 \<rparr> < 925
   \<and> requestMemory \<lparr> simulatedHeap = 4096,
         availableSegs = [\<lparr> startAddr = 100, length_seg = 924, memPtr = 0 \<rparr>],
         occupiedSegs = [\<lparr> startAddr = 0, length_seg = 100, memPtr = 4096 \<rparr>] \<rparr> 925 True
     = (Inl OutOfMemory, \<lparr> simulatedHeap = 4096,
         availableSegs = [\<lparr> startAddr = 100, length_seg = 924, memPtr = 0 \<rparr>],
         occupiedSegs = [\<lparr> startAddr = 0, length_seg = 100, memPtr = 4096 \<rparr>] \<rparr>)"
  using request_failures_leave_state[of "-5" "\<lparr> simulatedHeap = 4096,
         availableSegs = [\<lparr> startAddr = 100, length_seg = 924, memPtr = 0 \<rparr>],
         occupiedSegs = [\<lparr> startAddr = 0, length_seg = 100, memPtr = 4096 \<rparr>] \<rparr>" True]
    request_failures_leave_state[of 925 "\<lparr> simulatedHeap = 4096,
         availableSegs = [\<lparr> startAddr = 100, length_seg = 924, memPtr = 0 \<rparr>],
         occupiedSegs = [\<lparr> startAddr = 0, length_seg = 100, memPtr = 4096 \<rparr>] \<rparr>" True]
  by simp

text \<open>
  Claim C5. In every state, \<open>releaseMemory\<close> of the null pointer returns at the
  \<open>NullHandle\<close> exit, and of a pointer that is not null and is the \<open>memPtr\<close> of no
  allocated segment at the \<open>UnknownHandle\<close> exit; both leave the state as it was.
\<close>

theorem release_failures_leave_state:
  "releaseMemory s 0 = (Inl NullHandle, s)
   \<and> (p \<noteq> 0 \<and> p \<notin> memPtr ` set (occupiedSegs s)
        \<longrightarrow> releaseMemory s p = (Inl UnknownHandle, s))"
proof -
  have "dropWhile (\<lambda>q. memPtr q \<noteq> p) (occupiedSegs s) = []" if "p \<notin> memPtr ` set (occupiedSegs s)"
    using that by auto
  then show ?thesis by (auto simp: releaseMemory_def simp del: dropWhile_eq_Nil_conv)
qed

theorem release_failures_leave_state_witness:
  "releaseMemory \<lparr> simulatedHeap = 4096,
         availableSegs = [\<lparr> startAddr = 100, length_seg = 924, memPtr = 0 \<rparr>],
         occupiedSegs = [\<lparr> startAddr = 0, length_seg = 100, memPtr = 4096 \<rparr>] \<rparr> 0
     = (Inl NullHandle, \<lparr> simulatedHeap = 4096,
         availableSegs = [\<lparr> startAddr = 100, length_seg = 924, memPtr = 0 \<rparr>],
         occupiedSegs = [\<lparr> startAddr = 0, length_seg = 100, memPtr = 4096 \<rparr>] \<rparr>)
   \<and> (4097::int) \<noteq> 0
   \<and> 4097 \<notin> memPtr ` set [\<lparr> startAddr = 0, length_seg = 100, memPtr = 4096 \<rparr>]
   \<and> releaseMemory \<lparr> simulatedHeap = 4096,
         availableSegs = [\<lparr> startAddr = 100, length_seg = 924, memPtr = 0 \<rparr>],
         occupiedSegs = [\<lparr> startAddr = 0, length_seg = 100, memPtr = 4096 \<rparr>] \<rparr> 4097
     = (Inl UnknownHandle, \<lparr> simulatedHeap = 4096,
         availableSegs = [\<lparr> startAddr = 100, length_seg = 924, memPtr = 0 \<rparr>],
         occupiedSegs = [\<lparr> startAddr = 0, length_seg = 100, memPtr = 4096 \<rparr>] \<rparr>)"
  using release_failures_leave_state[of "\<lparr> simulatedHeap = 4096,
         availableSegs = [\<lparr> startAddr = 100, length_seg = 924, memPtr = 0 \<rparr>],
         occupiedSegs = [\<lparr> startAddr = 0, length_seg = 100, memPtr = 4096 \<rparr>] \<rparr>" 4097]
  by simp

section \<open>Bounds in reachable states\<close>

lemma requestMemory_base: "simulatedHeap (snd (requestMemory s sz ok)) = simulatedHeap s"
  by (auto simp: requestMemory_def Let_def split: list.splits)

lemma releaseMemory_base: "simulatedHeap (snd (releaseMemory s p)) = simulatedHeap s"
  by (auto simp: releaseMemory_def Let_def combineFreeSegments_def split: list.splits)

lemma exec_base: "simulatedHeap (exec s cs) = simulatedHeap s"
proof (induction cs arbitrary: s)
  case Nil
  then show ?case by simp
next
  case (Cons c cs)
  then show ?case by (cases c) (simp_all add: requestMemory_base releaseMemory_base)
qed

lemma reachable_base_pos: "setupHeap heapPtr nodeOk = Some s0 \<Longrightarrow> 0 < simulatedHeap (exec s0 cs)"
  by (auto simp: exec_base setupHeap_def split: if_splits)

lemma inv_bounds:
  assumes "ledger_inv s" and "x \<in> set (availableSegs s) \<union> set (occupiedSegs s)"
  shows "0 \<le> startAddr x \<and> 0 < length_seg x \<and> startAddr x + length_seg x \<le> 1024"
proof -
  have pos: "0 < length_seg x" using assms by (auto simp: ledger_inv_def)
  have c: "cover (availableSegs s @ occupiedSegs s) a = (if 0 \<le> a \<and> a < 1024 then 1 else 0)" for a
    using assms(1) by (simp add: ledger_inv_def)
  have x: "x \<in> set (availableSegs s @ occupiedSegs s)" using assms(2) by simp
  have "startAddr x \<in> segRange x" "startAddr x + length_seg x - 1 \<in> segRange x"
    using pos by (simp_all add: segRange_def)
  then have "1 \<le> cover (availableSegs s @ occupiedSegs s) (startAddr x)"
    and "1 \<le> cover (availableSegs s @ occupiedSegs s) (startAddr x + length_seg x - 1)"
    using x cover_mem by blast+
  then show ?thesis using pos c[of "startAddr x"] c[of "startAddr x + length_seg x - 1"]
    by (auto split: if_splits)
qed

lemma reachable_bounds:
  "setupHeap heapPtr nodeOk = Some s0 \<Longrightarrow>
   x \<in> set (availableSegs (exec s0 cs)) \<union> set (occupiedSegs (exec s0 cs)) \<Longrightarrow>
   0 \<le> startAddr x \<and> 0 < length_seg x \<and> startAddr x + length_seg x \<le> 1024"
  using inv_bounds[OF exec_reach_inv] by blast

lemma reachable_lengths_pos:
  "setupHeap heapPtr nodeOk = Some s0 \<Longrightarrow>
   x \<in> set (availableSegs (exec s0 cs)) \<union> set (occupiedSegs (exec s0 cs)) \<Longrightarrow> 0 < length_seg x"
  using exec_reach_inv[of heapPtr nodeOk s0 cs] by (auto simp: ledger_inv_def)

lemma reachable_gapped:
  "setupHeap heapPtr nodeOk = Some s0 \<Longrightarrow> sorted_wrt gapped (availableSegs (exec s0 cs))"
  using exec_reach_inv[of heapPtr nodeOk s0 cs] by (simp add: ledger_inv_def)

lemma reachable_ascending:
  assumes "setupHeap heapPtr nodeOk = Some s0"
  shows "sorted_wrt (\<lambda>x y. startAddr x < startAddr y) (availableSegs (exec s0 cs))"
proof -
  have g: "sorted_wrt gapped (availableSegs (exec s0 cs))" using assms by (rule reachable_gapped)
  have "\<forall>x \<in> set (availableSegs (exec s0 cs)). 0 < length_seg x"
    using reachable_lengths_pos[OF assms, of _ cs] by blast
  then have "sorted_wrt (\<lambda>x y. gapped x y \<and> 0 < length_seg x) (availableSegs (exec s0 cs))"
    using g by (simp add: sorted_wrt_iff_nth_less)
  then show ?thesis
    by (rule sorted_wrt_mono_rel[rotated]) (simp add: gapped_def)
qed

section \<open>First fit\<close>

lemma first_fit_split:
  assumes "\<exists>x \<in> set xs. sz \<le> length_seg x"
  obtains c rest where "dropWhile (\<lambda>p. sz > length_seg p) xs = c # rest"
    and "xs = takeWhile (\<lambda>p. sz > length_seg p) xs @ c # rest"
    and "sz \<le> length_seg c"
proof -
  have "dropWhile (\<lambda>p. sz > length_seg p) xs \<noteq> []" using assms by (force simp: dropWhile_eq_Nil_conv not_less)
  then obtain c rest where d: "dropWhile (\<lambda>p. sz > length_seg p) xs = c # rest"
    by (cases "dropWhile (\<lambda>p. sz > length_seg p) xs") auto
  then have "xs = takeWhile (\<lambda>p. sz > length_seg p) xs @ c # rest" "sz \<le> length_seg c"
    by (auto simp: dropWhile_eq_Cons_conv)
  then show ?thesis using d that by blast
qed

text \<open>
  Claim C2. In every state the program reaches, for a positive size that some free
  segment can hold, \<open>requestMemory\<close> selects the first such segment in ascending order
  of \<open>startAddr\<close>: the free list is \<open>before @ c # rest\<close> with every segment of \<open>before\<close>
  too short, \<open>c\<close> long enough, and no segment that is long enough starts below \<open>c\<close>.
  When the node for the new segment can be allocated, the allocated segment starts
  where \<open>c\<close> started and has exactly the requested length, the value returned is
  \<open>simulatedHeap + startAddr c\<close>, \<open>c\<close> starts \<open>sz\<close> later and is \<open>sz\<close> shorter, and it
  leaves the list when nothing of it remains, so that after the call every segment of
  either list has a positive length; when the node cannot be allocated the call
  returns at the \<open>NodeAllocFailed\<close> exit and leaves the state as it was. The sums the
  code computes stay within \<open>0..1024\<close>, where C \<open>int\<close> and \<open>int\<close> agree.
\<close>

theorem first_fit_carve:
  assumes "setupHeap heapPtr initOk = Some s0"
    and "s = exec s0 cs"
    and "0 < sz"
    and "\<exists>x \<in> set (availableSegs s). sz \<le> length_seg x"
  shows "\<exists>before c rest.
      availableSegs s = before @ c # rest
      \<and> (\<forall>x \<in> set before. length_seg x < sz)
      \<and> sz \<le> length_seg c
      \<and> (\<forall>x \<in> set (availableSegs s). sz \<le> length_seg x \<longrightarrow> startAddr c \<le> startAddr x)
      \<and> 0 \<le> startAddr c \<and> startAddr c + sz \<le> 1024
      \<and> requestMemory s sz nodeOk =
          (if nodeOk
           then (Inr (simulatedHeap s + startAddr c),
                 s \<lparr> availableSegs :=
                       before
                       @ (if length_seg c = sz then []
                          else [c \<lparr> startAddr := startAddr c + sz,
                                    length_seg := length_seg c - sz \<rparr>])
                       @ rest,
                     occupiedSegs := occupiedSegs s
                       @ [\<lparr> startAddr = startAddr c, length_seg = sz,
                            memPtr = simulatedHeap s + startAddr c \<rparr>] \<rparr>)
           else (Inl NodeAllocFailed, s))
      \<and> (\<forall>x \<in> set (availableSegs (snd (requestMemory s sz nodeOk)))
                 \<union> set (occupiedSegs (snd (requestMemory s sz nodeOk))). 0 < length_seg x)"
proof -
  have inv: "ledger_inv s" unfolding assms(2) using assms(1) by (rule exec_reach_inv)
  obtain c rest where d: "dropWhile (\<lambda>p. sz > length_seg p) (availableSegs s) = c # rest"
    and av: "availableSegs s = takeWhile (\<lambda>p. sz > length_seg p) (availableSegs s) @ c # rest"
    and fit: "sz \<le> length_seg c"
    using first_fit_split[of "availableSegs s" sz] assms(4) by blast
  define before where "before = takeWhile (\<lambda>p. sz > length_seg p) (availableSegs s)"
  have small: "\<forall>x \<in> set before. length_seg x < sz"
    by (auto simp: before_def dest: set_takeWhileD)
  have av': "availableSegs s = before @ c # rest" using av by (simp add: before_def)
  have r: "requestMemory s sz nodeOk =
          (if nodeOk
           then (Inr (simulatedHeap s + startAddr c),
                 s \<lparr> availableSegs :=
                       before
                       @ (if length_seg c = sz then []
                          else [c \<lparr> startAddr := startAddr c + sz,
                                    length_seg := length_seg c - sz \<rparr>])
                       @ rest,
                     occupiedSegs := occupiedSegs s
                       @ [\<lparr> startAddr = startAddr c, length_seg = sz,
                            memPtr = simulatedHeap s + startAddr c \<rparr>] \<rparr>)
           else (Inl NodeAllocFailed, s))"
  proof (cases nodeOk)
    case True
    then show ?thesis using requestMemory_ok[OF assms(3) _ d] by (simp add: before_def)
  next
    case False
    then show ?thesis using assms(3) d by (simp add: requestMemory_def)
  qed
  have srt: "sorted_wrt (\<lambda>x y. startAddr x < startAddr y) (availableSegs s)"
    unfolding assms(2) using assms(1) by (rule reachable_ascending)
  have low: "\<forall>x \<in> set (availableSegs s). sz \<le> length_seg x \<longrightarrow> startAddr c \<le> startAddr x"
  proof (intro ballI impI)
    fix x assume x: "x \<in> set (availableSegs s)" "sz \<le> length_seg x"
    then have "x \<notin> set before" using small by auto
    then have "x = c \<or> x \<in> set rest" using x(1) av' by auto
    moreover have "\<forall>y \<in> set rest. startAddr c < startAddr y"
      using srt unfolding av' by (simp add: sorted_wrt_append)
    ultimately show "startAddr c \<le> startAddr x" by auto
  qed
  have "c \<in> set (availableSegs s) \<union> set (occupiedSegs s)" by (simp add: av')
  then have "0 \<le> startAddr c \<and> startAddr c + length_seg c \<le> 1024"
    using inv_bounds[OF inv] by blast
  then have bnd: "0 \<le> startAddr c" "startAddr c + sz \<le> 1024" using fit by simp_all
  have "ledger_inv (snd (requestMemory s sz nodeOk))" using inv by (rule requestMemory_inv)
  then have post: "\<forall>x \<in> set (availableSegs (snd (requestMemory s sz nodeOk)))
                 \<union> set (occupiedSegs (snd (requestMemory s sz nodeOk))). 0 < length_seg x"
    by (auto simp: ledger_inv_def)
  show ?thesis using av' small fit low bnd r post by blast
qed

theorem first_fit_carve_witness:
  "setupHeap 4096 True =
       Some \<lparr> simulatedHeap = 4096,
              availableSegs = [\<lparr> startAddr = 0, length_seg = 1024, memPtr = 0 \<rparr>],
              occupiedSegs = [] \<rparr>
   \<and> \<lparr> simulatedHeap = 4096,
           availableSegs = [\<lparr> startAddr = 0, length_seg = 100, memPtr = 4096 \<rparr>,
                            \<lparr> startAddr = 300, length_seg = 724, memPtr = 0 \<rparr>],
           occupiedSegs = [\<lparr> startAddr = 100, length_seg = 200, memPtr = 4196 \<rparr>] \<rparr>
       = exec \<lparr> simulatedHeap = 4096,
              availableSegs = [\<lparr> startAddr = 0, length_seg = 1024, memPtr = 0 \<rparr>],
              occupiedSegs = [] \<rparr> [Request 100 True, Request 200 True, Release 4096]
   \<and> (0::int) < 150
   \<and> 150 \<le> length_seg \<lparr> startAddr = 300, length_seg = 724, memPtr = 0 \<rparr>
   \<and> requestMemory
         \<lparr> simulatedHeap = 4096,
           availableSegs = [\<lparr> startAddr = 0, length_seg = 100, memPtr = 4096 \<rparr>,
                            \<lparr> startAddr = 300, length_seg = 724, memPtr = 0 \<rparr>],
           occupiedSegs = [\<lparr> startAddr = 100, length_seg = 200, memPtr = 4196 \<rparr>] \<rparr> 150 True
       = (Inr 4396,
          \<lparr> simulatedHeap = 4096,
            availableSegs = [\<lparr> startAddr = 0, length_seg = 100, memPtr = 4096 \<rparr>,
                             \<lparr> startAddr = 450, length_seg = 574, memPtr = 0 \<rparr>],
            occupiedSegs = [\<lparr> startAddr = 100, length_seg = 200, memPtr = 4196 \<rparr>,
                            \<lparr> startAddr = 300, length_seg = 150, memPtr = 4396 \<rparr>] \<rparr>)"
proof -
  have h: "setupHeap 4096 True =
       Some \<lparr> simulatedHeap = 4096,
              availableSegs = [\<lparr> startAddr = 0, length_seg = 1024, memPtr = 0 \<rparr>],
              occupiedSegs = [] \<rparr>"
    by (simp add: setupHeap_def)
  have e: "\<lparr> simulatedHeap = 4096,
           availableSegs = [\<lparr> startAddr = 0, length_seg = 100, memPtr = 4096 \<rparr>,
                            \<lparr> startAddr = 300, length_seg = 724, memPtr = 0 \<rparr>],
           occupiedSegs = [\<lparr> startAddr = 100, length_seg = 200, memPtr = 4196 \<rparr>] \<rparr>
       = exec \<lparr> simulatedHeap = 4096,
              availableSegs = [\<lparr> startAddr = 0, length_seg = 1024, memPtr = 0 \<rparr>],
              occupiedSegs = [] \<rparr> [Request 100 True, Request 200 True, Release 4096]"
    by (simp add: requestMemory_def releaseMemory_def combineFreeSegments_def Let_def)
  have p: "(0::int) < 150"
    by simp
  have f: "\<exists>x \<in> set (availableSegs \<lparr> simulatedHeap = 4096,
           availableSegs = [\<lparr> startAddr = 0, length_seg = 100, memPtr = 4096 \<rparr>,
                            \<lparr> startAddr = 300, length_seg = 724, memPtr = 0 \<rparr>],
           occupiedSegs = [\<lparr> startAddr = 100, length_seg = 200, memPtr = 4196 \<rparr>] \<rparr>). 150 \<le> length_seg x"
    by simp
  have r: "requestMemory
         \<lparr> simulatedHeap = 4096,
           availableSegs = [\<lparr> startAddr = 0, length_seg = 100, memPtr = 4096 \<rparr>,
                            \<lparr> startAddr = 300, length_seg = 724, memPtr = 0 \<rparr>],
           occupiedSegs = [\<lparr> startAddr = 100, length_seg = 200, memPtr = 4196 \<rparr>] \<rparr> 150 True
       = (Inr 4396,
          \<lparr> simulatedHeap = 4096,
            availableSegs = [\<lparr> startAddr = 0, length_seg = 100, memPtr = 4096 \<rparr>,
                             \<lparr> startAddr = 450, length_seg = 574, memPtr = 0 \<rparr>],
            occupiedSegs = [\<lparr> startAddr = 100, length_seg = 200, memPtr = 4196 \<rparr>,
                            \<lparr> startAddr = 300, length_seg = 150, memPtr = 4396 \<rparr>] \<rparr>)"
    by (simp add: requestMemory_def Let_def)
  show ?thesis using first_fit_carve[OF h e p f, of True] h e r by simp
qed

text \<open>
  The claim as the specification words it fails twice. In a state the program reaches,
  at the exit after "Allocation failed", the code returns \<open>NULL\<close> and carves nothing
  although a free segment is long enough. And the claim speaks of every state: in a
  state that no run reaches, whose free list holds a segment of length zero, the scan
  passes that segment and it stays in the list after the successful call.
\<close>

theorem first_fit_carve_counterexample:
  "setupHeap 4096 True =
       Some \<lparr> simulatedHeap = 4096,
              availableSegs = [\<lparr> startAddr = 0, length_seg = 1024, memPtr = 0 \<rparr>],
              occupiedSegs = [] \<rparr>
   \<and> exec \<lparr> simulatedHeap = 4096,
              availableSegs = [\<lparr> startAddr = 0, length_seg = 1024, memPtr = 0 \<rparr>],
              occupiedSegs = [] \<rparr> [Request 100 True, Request 200 True, Release 4096]
       = \<lparr> simulatedHeap = 4096,
           availableSegs = [\<lparr> startAddr = 0, length_seg = 100, memPtr = 4096 \<rparr>,
                            \<lparr> startAddr = 300, length_seg = 724, memPtr = 0 \<rparr>],
           occupiedSegs = [\<lparr> startAddr = 100, length_seg = 200, memPtr = 4196 \<rparr>] \<rparr>
   \<and> (0::int) < 150
   \<and> 150 \<le> length_seg \<lparr> startAddr = 300, length_seg = 724, memPtr = 0 \<rparr>
   \<and> requestMemory
         \<lparr> simulatedHeap = 4096,
           availableSegs = [\<lparr> startAddr = 0, length_seg = 100, memPtr = 4096 \<rparr>,
                            \<lparr> startAddr = 300, length_seg = 724, memPtr = 0 \<rparr>],
           occupiedSegs = [\<lparr> startAddr = 100, length_seg = 200, memPtr = 4196 \<rparr>] \<rparr> 150 False
       = (Inl NodeAllocFailed,
          \<lparr> simulatedHeap = 4096,
           availableSegs = [\<lparr> startAddr = 0, length_seg = 100, memPtr = 4096 \<rparr>,
                            \<lparr> startAddr = 300, length_seg = 724, memPtr = 0 \<rparr>],
           occupiedSegs = [\<lparr> startAddr = 100, length_seg = 200, memPtr = 4196 \<rparr>] \<rparr>)
   \<and> (0::int) < 10
   \<and> 10 \<le> length_seg \<lparr> startAddr = 0, length_seg = 1024, memPtr = 0 \<rparr>
   \<and> requestMemory
         \<lparr> simulatedHeap = 4096,
           availableSegs = [\<lparr> startAddr = 0, length_seg = 0, memPtr = 0 \<rparr>,
                            \<lparr> startAddr = 0, length_seg = 1024, memPtr = 0 \<rparr>],
           occupiedSegs = [] \<rparr> 10 True
       = (Inr 4096,
          \<lparr> simulatedHeap = 4096,
            availableSegs = [\<lparr> startAddr = 0, length_seg = 0, memPtr = 0 \<rparr>,
                             \<lparr> startAddr = 10, length_seg = 1014, memPtr = 0 \<rparr>],
            occupiedSegs = [\<lparr> startAddr = 0, length_seg = 10, memPtr = 4096 \<rparr>] \<rparr>)
   \<and> length_seg (hd (availableSegs (snd (requestMemory
         \<lparr> simulatedHeap = 4096,
           availableSegs = [\<lparr> startAddr = 0, length_seg = 0, memPtr = 0 \<rparr>,
                            \<lparr> startAddr = 0, length_seg = 1024, memPtr = 0 \<rparr>],
           occupiedSegs = [] \<rparr> 10 True)))) = 0"
  by (simp add: setupHeap_def requestMemory_def releaseMemory_def combineFreeSegments_def Let_def)

section \<open>What a successful request leaves alone\<close>

lemma requestMemory_success:
  assumes "requestMemory s sz nodeOk = (Inr h, s')"
  obtains c rest where "0 < sz" "nodeOk"
    and "dropWhile (\<lambda>p. sz > length_seg p) (availableSegs s) = c # rest"
proof -
  have "0 < sz" "nodeOk" "dropWhile (\<lambda>p. sz > length_seg p) (availableSegs s) \<noteq> []"
    using assms by (auto simp: requestMemory_def simp del: dropWhile_eq_Nil_conv split: if_splits list.splits)
  then show ?thesis using that by (cases "dropWhile (\<lambda>p. sz > length_seg p) (availableSegs s)") auto
qed

lemma releaseMemory_success:
  assumes "releaseMemory s p = (Inr u, s')"
  obtains ptr1 rest1 where "p \<noteq> 0"
    and "dropWhile (\<lambda>q. memPtr q \<noteq> p) (occupiedSegs s) = ptr1 # rest1"
proof -
  have "p \<noteq> 0" "dropWhile (\<lambda>q. memPtr q \<noteq> p) (occupiedSegs s) \<noteq> []"
    using assms by (auto simp: releaseMemory_def simp del: dropWhile_eq_Nil_conv split: if_splits list.splits)
  then show ?thesis using that by (cases "dropWhile (\<lambda>q. memPtr q \<noteq> p) (occupiedSegs s)") auto
qed

lemma takeWhile_rest_remove1:
  "dropWhile (\<lambda>q. f q \<noteq> p) xs = y # ys \<Longrightarrow>
   map f (takeWhile (\<lambda>q. f q \<noteq> p) xs @ ys) = remove1 p (map f xs)"
  by (induction xs) (auto split: if_splits)

lemma requestMemory_handles:
  "requestMemory s sz nodeOk = (Inr h, s') \<Longrightarrow>
   map memPtr (occupiedSegs s') = map memPtr (occupiedSegs s) @ [h]"
proof -
  assume a: "requestMemory s sz nodeOk = (Inr h, s')"
  then obtain c rest where "0 < sz" "nodeOk"
    and "dropWhile (\<lambda>p. sz > length_seg p) (availableSegs s) = c # rest"
    by (rule requestMemory_success)
  from requestMemory_ok[OF this] a show ?thesis by auto
qed

lemma requestMemory_error_state: "requestMemory s sz nodeOk = (Inl e, s') \<Longrightarrow> s' = s"
  by (auto simp: requestMemory_def Let_def split: if_splits list.splits)

lemma releaseMemory_error_state: "releaseMemory s p = (Inl e, s') \<Longrightarrow> s' = s"
  by (auto simp: releaseMemory_def Let_def split: if_splits list.splits)

lemma releaseMemory_handles:
  "releaseMemory s p = (Inr u, s') \<Longrightarrow>
   map memPtr (occupiedSegs s') = remove1 p (map memPtr (occupiedSegs s))"
proof -
  assume a: "releaseMemory s p = (Inr u, s')"
  then obtain ptr1 rest1 where "p \<noteq> 0"
    and d: "dropWhile (\<lambda>q. memPtr q \<noteq> p) (occupiedSegs s) = ptr1 # rest1"
    by (rule releaseMemory_success)
  from releaseMemory_ok[OF this] a
  have "occupiedSegs s' = takeWhile (\<lambda>q. memPtr q \<noteq> p) (occupiedSegs s) @ rest1" by auto
  then show ?thesis using takeWhile_rest_remove1[OF d] by simp
qed

lemma live_exec: "map memPtr (occupiedSegs (exec s cs)) = live s cs (map memPtr (occupiedSegs s))"
proof (induction cs arbitrary: s)
  case Nil
  then show ?case by simp
next
  case (Cons c cs)
  show ?case
  proof (cases c)
    case (Request sz nodeOk)
    obtain r s' where r: "requestMemory s sz nodeOk = (r, s')" by (cases "requestMemory s sz nodeOk")
    show ?thesis
    proof (cases r)
      case (Inl e)
      then show ?thesis using r Request Cons.IH[of s'] requestMemory_error_state[of s sz nodeOk e s'] by simp
    next
      case (Inr h)
      then show ?thesis using r Request Cons.IH[of s'] requestMemory_handles[of s sz nodeOk h s'] by simp
    qed
  next
    case (Release p)
    obtain r s' where r: "releaseMemory s p = (r, s')" by (cases "releaseMemory s p")
    show ?thesis
    proof (cases r)
      case (Inl e)
      then show ?thesis using r Release Cons.IH[of s'] releaseMemory_error_state[of s p e s'] by simp
    next
      case (Inr u)
      then show ?thesis using r Release Cons.IH[of s'] releaseMemory_handles[of s p u s'] by simp
    qed
  qed
qed

text \<open>
  Claim C10. When \<open>requestMemory\<close> succeeds, the free list before the call is
  \<open>before @ c # rest\<close> and after it \<open>before @ rest\<close> or \<open>before @ c' # rest\<close>, where \<open>c'\<close>
  is \<open>c\<close> shrunk from the front: the other free segments and their order are untouched.
  The allocated list is the old one with the new segment behind its last node. Since
  \<open>releaseMemory\<close> unlinks one node only, the allocated list holds, in every state and
  after any calls \<open>cs\<close>, the handles of the live allocations in the order they were
  returned (\<open>live\<close>).
\<close>

theorem request_frame:
  "(requestMemory s sz nodeOk = (Inr h, s') \<longrightarrow>
      (\<exists>before c rest.
         availableSegs s = before @ c # rest
         \<and> (availableSegs s' = before @ rest
            \<or> availableSegs s' =
                before @ c \<lparr> startAddr := startAddr c + sz, length_seg := length_seg c - sz \<rparr> # rest)
         \<and> occupiedSegs s' =
             occupiedSegs s @ [\<lparr> startAddr = startAddr c, length_seg = sz, memPtr = h \<rparr>]
         \<and> simulatedHeap s' = simulatedHeap s))
   \<and> map memPtr (occupiedSegs (exec s cs)) = live s cs (map memPtr (occupiedSegs s))"
proof (intro conjI impI)
  assume a: "requestMemory s sz nodeOk = (Inr h, s')"
  then obtain c rest where pos: "0 < sz" and ok: "nodeOk"
    and d: "dropWhile (\<lambda>p. sz > length_seg p) (availableSegs s) = c # rest"
    by (rule requestMemory_success)
  define before where "before = takeWhile (\<lambda>p. sz > length_seg p) (availableSegs s)"
  define mid where "mid = (if length_seg c = sz then []
               else [c \<lparr> startAddr := startAddr c + sz, length_seg := length_seg c - sz \<rparr>])"
  have av: "availableSegs s = before @ c # rest"
    using d by (auto simp: dropWhile_eq_Cons_conv before_def)
  have "requestMemory s sz nodeOk =
      (Inr (simulatedHeap s + startAddr c),
       s \<lparr> availableSegs := before @ mid @ rest,
           occupiedSegs := occupiedSegs s
            @ [\<lparr> startAddr = startAddr c, length_seg = sz,
                 memPtr = simulatedHeap s + startAddr c \<rparr>] \<rparr>)"
    unfolding before_def mid_def by (rule requestMemory_ok[OF pos ok d])
  then have hh: "h = simulatedHeap s + startAddr c"
    and ss: "s' = s \<lparr> availableSegs := before @ mid @ rest,
           occupiedSegs := occupiedSegs s
            @ [\<lparr> startAddr = startAddr c, length_seg = sz,
                 memPtr = simulatedHeap s + startAddr c \<rparr>] \<rparr>"
    using a by simp_all
  have "mid = [] \<or> mid = [c \<lparr> startAddr := startAddr c + sz, length_seg := length_seg c - sz \<rparr>]"
    by (simp add: mid_def)
  then have "(availableSegs s' = before @ rest
            \<or> availableSegs s' =
                before @ c \<lparr> startAddr := startAddr c + sz, length_seg := length_seg c - sz \<rparr> # rest)
         \<and> occupiedSegs s' =
             occupiedSegs s @ [\<lparr> startAddr = startAddr c, length_seg = sz, memPtr = h \<rparr>]
         \<and> simulatedHeap s' = simulatedHeap s"
    using hh ss by auto
  then show "\<exists>before c rest.
         availableSegs s = before @ c # rest
         \<and> (availableSegs s' = before @ rest
            \<or> availableSegs s' =
                before @ c \<lparr> startAddr := startAddr c + sz, length_seg := length_seg c - sz \<rparr> # rest)
         \<and> occupiedSegs s' =
             occupiedSegs s @ [\<lparr> startAddr = startAddr c, length_seg = sz, memPtr = h \<rparr>]
         \<and> simulatedHeap s' = simulatedHeap s"
    using av by blast
next
  show "map memPtr (occupiedSegs (exec s cs)) = live s cs (map memPtr (occupiedSegs s))"
    by (rule live_exec)
qed

theorem request_frame_witness:
  "requestMemory
         \<lparr> simulatedHeap = 4096,
           availableSegs = [\<lparr> startAddr = 100, length_seg = 924, memPtr = 0 \<rparr>],
           occupiedSegs = [\<lparr> startAddr = 0, length_seg = 100, memPtr = 4096 \<rparr>] \<rparr> 924 True
       = (Inr 4196,
          \<lparr> simulatedHeap = 4096,
            availableSegs = [],
            occupiedSegs = [\<lparr> startAddr = 0, length_seg = 100, memPtr = 4096 \<rparr>,
                            \<lparr> startAddr = 100, length_seg = 924, memPtr = 4196 \<rparr>] \<rparr>)
   \<and> live \<lparr> simulatedHeap = 4096,
           availableSegs = [\<lparr> startAddr = 100, length_seg = 924, memPtr = 0 \<rparr>],
           occupiedSegs = [\<lparr> startAddr = 0, length_seg = 100, memPtr = 4096 \<rparr>] \<rparr>
          [Request 24 True, Request 900 True, Release 4096, Request 50 True] [4096]
       = [4196, 4220, 4096]
   \<and> map memPtr (occupiedSegs (exec \<lparr> simulatedHeap = 4096,
           availableSegs = [\<lparr> startAddr = 100, length_seg = 924, memPtr = 0 \<rparr>],
           occupiedSegs = [\<lparr> startAddr = 0, length_seg = 100, memPtr = 4096 \<rparr>] \<rparr>
          [Request 24 True, Request 900 True, Release 4096, Request 50 True]))
       = [4196, 4220, 4096]"
  using request_frame[of "\<lparr> simulatedHeap = 4096,
           availableSegs = [\<lparr> startAddr = 100, length_seg = 924, memPtr = 0 \<rparr>],
           occupiedSegs = [\<lparr> startAddr = 0, length_seg = 100, memPtr = 4096 \<rparr>] \<rparr>" 924 True 4196
           "\<lparr> simulatedHeap = 4096,
            availableSegs = [],
            occupiedSegs = [\<lparr> startAddr = 0, length_seg = 100, memPtr = 4096 \<rparr>,
                            \<lparr> startAddr = 100, length_seg = 924, memPtr = 4196 \<rparr>] \<rparr>"
           "[Request 24 True, Request 900 True, Release 4096, Request 50 True]"]
  by (simp add: requestMemory_def releaseMemory_def combineFreeSegments_def Let_def)

section \<open>The free list is ascending and coalesced\<close>

lemma combineSegs_exhaustive: "successively (\<lambda>x y. \<not> touching x y) (combineSegs xs)"
proof (induction xs rule: combineSegs.induct)
  case (1 p n rest)
  show ?case
  proof (cases "startAddr p + length_seg p = startAddr n")
    case True
    then show ?thesis using 1 by simp
  next
    case False
    have hd: "combineSegs (n # rest) \<noteq> [] \<and> startAddr (hd (combineSegs (n # rest))) = startAddr n"
      by (induction rest arbitrary: n) auto
    then obtain y ys where y: "combineSegs (n # rest) = y # ys" "startAddr y = startAddr n"
      by (cases "combineSegs (n # rest)") auto
    then show ?thesis using 1(2)[OF False] False by (simp add: touching_def)
  qed
qed simp_all

lemma combineSegs_fixed: "successively (\<lambda>x y. \<not> touching x y) xs \<Longrightarrow> combineSegs xs = xs"
  by (induction xs rule: combineSegs.induct) (auto simp: touching_def)

text \<open>
  Claim C3. In every state the program reaches the free list is in strictly ascending
  order of \<open>startAddr\<close>, and every free segment ends strictly below the start of every
  later one (no two touch or overlap). The coalescing pass compares the head with its
  successor; exactly when the head ends where the successor starts it adds the
  successor's length to the head, drops the successor and goes on with the same,
  longer head; otherwise it keeps the head and goes on with the successor. In its
  result no segment ends where its successor starts, and a list in which no segment
  ends where its successor starts is left as it is.
\<close>

theorem free_list_coalesced:
  "(setupHeap heapPtr nodeOk = Some s0 \<longrightarrow>
      sorted_wrt (\<lambda>x y. startAddr x < startAddr y) (availableSegs (exec s0 cs))
      \<and> sorted_wrt (\<lambda>x y. startAddr x + length_seg x < startAddr y) (availableSegs (exec s0 cs)))
   \<and> combineSegs (p # n # rest) =
       (if startAddr p + length_seg p = startAddr n
        then combineSegs (p \<lparr> length_seg := length_seg p + length_seg n \<rparr> # rest)
        else p # combineSegs (n # rest))
   \<and> combineSegs [p] = [p] \<and> combineSegs [] = []
   \<and> successively (\<lambda>x y. startAddr x + length_seg x \<noteq> startAddr y) (combineSegs xs)
   \<and> (successively (\<lambda>x y. startAddr x + length_seg x \<noteq> startAddr y) xs \<longrightarrow> combineSegs xs = xs)"
proof (intro conjI impI)
  assume a: "setupHeap heapPtr nodeOk = Some s0"
  show "sorted_wrt (\<lambda>x y. startAddr x < startAddr y) (availableSegs (exec s0 cs))"
    using a by (rule reachable_ascending)
  show "sorted_wrt (\<lambda>x y. startAddr x + length_seg x < startAddr y) (availableSegs (exec s0 cs))"
    using reachable_gapped[OF a, of cs] by (simp add: gapped_def[abs_def])
next
  show "successively (\<lambda>x y. startAddr x + length_seg x \<noteq> startAddr y) (combineSegs xs)"
    using combineSegs_exhaustive[of xs] by (simp add: touching_def[abs_def])
next
  assume "successively (\<lambda>x y. startAddr x + length_seg x \<noteq> startAddr y) xs"
  then show "combineSegs xs = xs"
    using combineSegs_fixed[of xs] by (simp add: touching_def[abs_def])
qed simp_all

theorem free_list_coalesced_witness:
  "setupHeap 4096 True = Some \<lparr> simulatedHeap = 4096,
            availableSegs = [\<lparr> startAddr = 0, length_seg = 1024, memPtr = 0 \<rparr>],
            occupiedSegs = [] \<rparr>
   \<and> availableSegs (exec \<lparr> simulatedHeap = 4096,
            availableSegs = [\<lparr> startAddr = 0, length_seg = 1024, memPtr = 0 \<rparr>],
            occupiedSegs = [] \<rparr> [Request 100 True, Request 200 True, Request 50 True, Release 4096,
                              Release 4396])
       = [\<lparr> startAddr = 0, length_seg = 100, memPtr = 4096 \<rparr>, \<lparr> startAddr = 300, length_seg = 724, memPtr = 4396 \<rparr>]
   \<and> sorted_wrt (\<lambda>x y. startAddr x + length_seg x < startAddr y) [\<lparr> startAddr = 0, length_seg = 100, memPtr = 4096 \<rparr>, \<lparr> startAddr = 300, length_seg = 724, memPtr = 4396 \<rparr>]
   \<and> combineSegs [\<lparr> startAddr = 0, length_seg = 100, memPtr = 4096 \<rparr>, \<lparr> startAddr = 100, length_seg = 200, memPtr = 4196 \<rparr>, \<lparr> startAddr = 300, length_seg = 10, memPtr = 0 \<rparr>] = [\<lparr> startAddr = 0, length_seg = 310, memPtr = 4096 \<rparr>]
   \<and> successively (\<lambda>x y. startAddr x + length_seg x \<noteq> startAddr y) [\<lparr> startAddr = 0, length_seg = 100, memPtr = 4096 \<rparr>, \<lparr> startAddr = 300, length_seg = 724, memPtr = 4396 \<rparr>]
   \<and> combineSegs [\<lparr> startAddr = 0, length_seg = 100, memPtr = 4096 \<rparr>, \<lparr> startAddr = 300, length_seg = 724, memPtr = 4396 \<rparr>] = [\<lparr> startAddr = 0, length_seg = 100, memPtr = 4096 \<rparr>, \<lparr> startAddr = 300, length_seg = 724, memPtr = 4396 \<rparr>]"
proof -
  have h: "setupHeap 4096 True = Some \<lparr> simulatedHeap = 4096,
            availableSegs = [\<lparr> startAddr = 0, length_seg = 1024, memPtr = 0 \<rparr>],
            occupiedSegs = [] \<rparr>"
    by (simp add: setupHeap_def)
  have e: "availableSegs (exec \<lparr> simulatedHeap = 4096,
            availableSegs = [\<lparr> startAddr = 0, length_seg = 1024, memPtr = 0 \<rparr>],
            occupiedSegs = [] \<rparr> [Request 100 True, Request 200 True, Request 50 True, Release 4096,
                              Release 4396])
       = [\<lparr> startAddr = 0, length_seg = 100, memPtr = 4096 \<rparr>, \<lparr> startAddr = 300, length_seg = 724, memPtr = 4396 \<rparr>]"
    by (simp add: requestMemory_def releaseMemory_def combineFreeSegments_def Let_def)
  show ?thesis
    using free_list_coalesced[of 4096 True "\<lparr> simulatedHeap = 4096,
            availableSegs = [\<lparr> startAddr = 0, length_seg = 1024, memPtr = 0 \<rparr>],
            occupiedSegs = [] \<rparr>"
        "[Request 100 True, Request 200 True, Request 50 True, Release 4096, Release 4396]"
        "\<lparr> startAddr = 0, length_seg = 100, memPtr = 4096 \<rparr>" "\<lparr> startAddr = 100, length_seg = 200, memPtr = 4196 \<rparr>" "[\<lparr> startAddr = 300, length_seg = 10, memPtr = 0 \<rparr>]" "[\<lparr> startAddr = 0, length_seg = 100, memPtr = 4096 \<rparr>, \<lparr> startAddr = 300, length_seg = 724, memPtr = 4396 \<rparr>]"] h e
    by simp
qed

section \<open>A freed hole is used again\<close>

text \<open>
  Claim C7. From the initial heap, \<open>requestMemory(100)\<close> returns the handle of start 0,
  \<open>requestMemory(200)\<close> the handle of start 100; after the first handle is released,
  \<open>requestMemory(50)\<close> returns the handle of start 0 again, not that of start 300, and
  the segment it allocated starts at 0.
\<close>

theorem first_fit_reuses_hole:
  assumes "setupHeap heapPtr True = Some s0"
  shows "fst (requestMemory s0 100 True) = Inr (int heapPtr + 0)
    \<and> fst (requestMemory (exec s0 [Request 100 True]) 200 True) = Inr (int heapPtr + 100)
    \<and> fst (releaseMemory (exec s0 [Request 100 True, Request 200 True]) (int heapPtr + 0)) = Inr ()
    \<and> fst (requestMemory (exec s0 [Request 100 True, Request 200 True, Release (int heapPtr + 0)]) 50 True)
        = Inr (int heapPtr + 0)
    \<and> last (occupiedSegs (exec s0 [Request 100 True, Request 200 True, Release (int heapPtr + 0),
                                     Request 50 True]))
        = \<lparr> startAddr = 0, length_seg = 50, memPtr = int heapPtr + 0 \<rparr>
    \<and> fst (requestMemory (exec s0 [Request 100 True, Request 200 True, Release (int heapPtr + 0)]) 50 True)
        \<noteq> Inr (int heapPtr + 300)"
proof -
  have nz: "heapPtr \<noteq> 0" and s0: "s0 = \<lparr> simulatedHeap = int heapPtr,
                  availableSegs = [\<lparr> startAddr = 0, length_seg = 1024, memPtr = 0 \<rparr>],
                  occupiedSegs = [] \<rparr>"
    using assms by (auto simp: setupHeap_def split: if_splits)
  show ?thesis
    using nz unfolding s0
    by (simp add: requestMemory_def releaseMemory_def combineFreeSegments_def Let_def)
qed

theorem first_fit_reuses_hole_witness:
  "setupHeap 4096 True =
     Some \<lparr> simulatedHeap = 4096,
            availableSegs = [\<lparr> startAddr = 0, length_seg = 1024, memPtr = 0 \<rparr>],
            occupiedSegs = [] \<rparr>
   \<and> last (occupiedSegs (exec \<lparr> simulatedHeap = 4096,
            availableSegs = [\<lparr> startAddr = 0, length_seg = 1024, memPtr = 0 \<rparr>],
            occupiedSegs = [] \<rparr> [Request 100 True, Request 200 True, Release 4096, Request 50 True]))
       = \<lparr> startAddr = 0, length_seg = 50, memPtr = 4096 \<rparr>"
proof -
  have h: "setupHeap 4096 True =
     Some \<lparr> simulatedHeap = 4096,
            availableSegs = [\<lparr> startAddr = 0, length_seg = 1024, memPtr = 0 \<rparr>],
            occupiedSegs = [] \<rparr>"
    by (simp add: setupHeap_def)
  show ?thesis using first_fit_reuses_hole[OF h] h by simp
qed

section \<open>Handles\<close>

lemma exec_append: "exec s (cs @ ds) = exec (exec s cs) ds"
  by (induction cs arbitrary: s) simp_all

lemma cover_distinct_starts:
  "\<forall>x \<in> set xs. 0 < length_seg x \<Longrightarrow> \<forall>a. cover xs a \<le> 1 \<Longrightarrow> distinct (map startAddr xs)"
proof (induction xs)
  case Nil
  then show ?case by simp
next
  case (Cons x xs)
  have le: "\<forall>a. cover xs a \<le> 1"
  proof
    fix a
    have "cover xs a \<le> cover (x # xs) a" by (simp add: cover_Cons)
    then show "cover xs a \<le> 1" using Cons.prems(2) order_trans by blast
  qed
  have "startAddr x \<notin> startAddr ` set xs"
  proof
    assume "startAddr x \<in> startAddr ` set xs"
    then obtain y where y: "y \<in> set xs" "startAddr y = startAddr x" by auto
    then have "startAddr x \<in> segRange y" using Cons.prems(1) by (simp add: segRange_def)
    then have "1 \<le> cover xs (startAddr x)" using y(1) by (intro cover_mem[of y])
    moreover have "startAddr x \<in> segRange x" using Cons.prems(1) by (simp add: segRange_def)
    ultimately have "2 \<le> cover (x # xs) (startAddr x)" by (simp add: cover_Cons)
    then show False using Cons.prems(2) by (metis numeral_le_one_iff order_trans semiring_norm(69))
  qed
  then show ?case using Cons.IH Cons.prems(1) le by simp
qed

lemma inv_handles_distinct:
  assumes "ledger_inv s"
  shows "distinct (map memPtr (occupiedSegs s))"
proof -
  have "cover (occupiedSegs s) a \<le> 1" for a
  proof -
    have "cover (availableSegs s @ occupiedSegs s) a \<le> 1" using assms by (simp add: ledger_inv_def)
    then show ?thesis by (simp add: cover_append)
  qed
  moreover have "\<forall>x \<in> set (occupiedSegs s). 0 < length_seg x" using assms by (simp add: ledger_inv_def)
  ultimately have d: "distinct (map startAddr (occupiedSegs s))" by (intro cover_distinct_starts) auto
  have "map memPtr (occupiedSegs s) = map (\<lambda>a. simulatedHeap s + a) (map startAddr (occupiedSegs s))"
    using assms by (simp add: ledger_inv_def)
  then show ?thesis using d by (simp add: distinct_map inj_on_def del: map_map)
qed

lemma releaseMemory_unknown:
  "p \<noteq> 0 \<Longrightarrow> p \<notin> memPtr ` set (occupiedSegs s) \<Longrightarrow> releaseMemory s p = (Inl UnknownHandle, s)"
proof -
  assume a: "p \<noteq> 0" "p \<notin> memPtr ` set (occupiedSegs s)"
  then have "dropWhile (\<lambda>q. memPtr q \<noteq> p) (occupiedSegs s) = []" by auto
  then show ?thesis using a(1) by (simp add: releaseMemory_def del: dropWhile_eq_Nil_conv)
qed

text \<open>
  Claim C8. In every state the program reaches, when \<open>releaseMemory\<close> of \<open>h\<close> succeeds,
  a second \<open>releaseMemory\<close> of \<open>h\<close> right after it returns at the \<open>UnknownHandle\<close> exit
  and leaves the state as the first call left it.
\<close>

theorem double_release_fails:
  assumes "setupHeap heapPtr nodeOk = Some s0"
    and "releaseMemory (exec s0 cs) h = (Inr u, s1)"
  shows "releaseMemory s1 h = (Inl UnknownHandle, s1)"
proof -
  have d: "distinct (map memPtr (occupiedSegs (exec s0 cs)))"
    using exec_reach_inv[OF assms(1)] by (rule inv_handles_distinct)
  have nz: "h \<noteq> 0" using assms(2) by (rule releaseMemory_success)
  have "map memPtr (occupiedSegs s1) = remove1 h (map memPtr (occupiedSegs (exec s0 cs)))"
    using assms(2) by (rule releaseMemory_handles)
  then have "h \<notin> set (map memPtr (occupiedSegs s1))" using d by simp
  then have "h \<notin> memPtr ` set (occupiedSegs s1)" by simp
  then show ?thesis using nz by (rule releaseMemory_unknown[rotated])
qed

theorem double_release_fails_witness:
  "setupHeap 4096 True = Some \<lparr> simulatedHeap = 4096,
            availableSegs = [\<lparr> startAddr = 0, length_seg = 1024, memPtr = 0 \<rparr>],
            occupiedSegs = [] \<rparr>
   \<and> releaseMemory (exec \<lparr> simulatedHeap = 4096,
            availableSegs = [\<lparr> startAddr = 0, length_seg = 1024, memPtr = 0 \<rparr>],
            occupiedSegs = [] \<rparr> [Request 100 True, Request 200 True]) 4096 = (Inr (), \<lparr> simulatedHeap = 4096,
            availableSegs = [\<lparr> startAddr = 0, length_seg = 100, memPtr = 4096 \<rparr>,
                             \<lparr> startAddr = 300, length_seg = 724, memPtr = 0 \<rparr>],
            occupiedSegs = [\<lparr> startAddr = 100, length_seg = 200, memPtr = 4196 \<rparr>] \<rparr>)
   \<and> releaseMemory \<lparr> simulatedHeap = 4096,
            availableSegs = [\<lparr> startAddr = 0, length_seg = 100, memPtr = 4096 \<rparr>,
                             \<lparr> startAddr = 300, length_seg = 724, memPtr = 0 \<rparr>],
            occupiedSegs = [\<lparr> startAddr = 100, length_seg = 200, memPtr = 4196 \<rparr>] \<rparr> 4096 = (Inl UnknownHandle, \<lparr> simulatedHeap = 4096,
            availableSegs = [\<lparr> startAddr = 0, length_seg = 100, memPtr = 4096 \<rparr>,
                             \<lparr> startAddr = 300, length_seg = 724, memPtr = 0 \<rparr>],
            occupiedSegs = [\<lparr> startAddr = 100, length_seg = 200, memPtr = 4196 \<rparr>] \<rparr>)"
proof -
  have h: "setupHeap 4096 True = Some \<lparr> simulatedHeap = 4096,
            availableSegs = [\<lparr> startAddr = 0, length_seg = 1024, memPtr = 0 \<rparr>],
            occupiedSegs = [] \<rparr>"
    by (simp add: setupHeap_def)
  have r: "releaseMemory (exec \<lparr> simulatedHeap = 4096,
            availableSegs = [\<lparr> startAddr = 0, length_seg = 1024, memPtr = 0 \<rparr>],
            occupiedSegs = [] \<rparr> [Request 100 True, Request 200 True]) 4096 = (Inr (), \<lparr> simulatedHeap = 4096,
            availableSegs = [\<lparr> startAddr = 0, length_seg = 100, memPtr = 4096 \<rparr>,
                             \<lparr> startAddr = 300, length_seg = 724, memPtr = 0 \<rparr>],
            occupiedSegs = [\<lparr> startAddr = 100, length_seg = 200, memPtr = 4196 \<rparr>] \<rparr>)"
    by (simp add: requestMemory_def releaseMemory_def combineFreeSegments_def Let_def)
  show ?thesis using double_release_fails[OF h r] h r by simp
qed

text \<open>
  Claim C9. In every state the program reaches, the \<open>memPtr\<close> of every allocated
  segment is \<open>simulatedHeap + startAddr\<close>, and no two allocated segments have the same
  \<open>memPtr\<close>. A handle that \<open>requestMemory\<close> returns was the \<open>memPtr\<close> of no allocated
  segment before the call and is one after it; a handle that \<open>releaseMemory\<close> accepts
  was the \<open>memPtr\<close> of an allocated segment and is that of none after the call.
\<close>

theorem handles_identify_segments:
  "setupHeap heapPtr nodeOk = Some s0 \<longrightarrow>
     (\<forall>x \<in> set (occupiedSegs (exec s0 cs)). memPtr x = simulatedHeap (exec s0 cs) + startAddr x)
     \<and> distinct (map memPtr (occupiedSegs (exec s0 cs)))
     \<and> (requestMemory (exec s0 cs) sz ok = (Inr h, s1) \<longrightarrow>
          h \<notin> memPtr ` set (occupiedSegs (exec s0 cs)) \<and> h \<in> memPtr ` set (occupiedSegs s1))
     \<and> (releaseMemory (exec s0 cs) h' = (Inr u, s2) \<longrightarrow>
          h' \<in> memPtr ` set (occupiedSegs (exec s0 cs)) \<and> h' \<notin> memPtr ` set (occupiedSegs s2))"
proof (intro impI conjI)
  assume a: "setupHeap heapPtr nodeOk = Some s0"
  have inv: "ledger_inv (exec s0 cs)" for cs using a by (rule exec_reach_inv)
  show "\<forall>x \<in> set (occupiedSegs (exec s0 cs)). memPtr x = simulatedHeap (exec s0 cs) + startAddr x"
    using inv[of cs] by (simp add: ledger_inv_def)
  show d: "distinct (map memPtr (occupiedSegs (exec s0 cs)))"
    using inv[of cs] by (rule inv_handles_distinct)
  {
    assume r: "requestMemory (exec s0 cs) sz ok = (Inr h, s1)"
    then have m: "map memPtr (occupiedSegs s1) = map memPtr (occupiedSegs (exec s0 cs)) @ [h]"
      by (rule requestMemory_handles)
    have "s1 = exec s0 (cs @ [Request sz ok])" using r by (simp add: exec_append)
    then have "distinct (map memPtr (occupiedSegs s1))" using inv_handles_distinct[OF inv] by simp
    then have "h \<notin> set (map memPtr (occupiedSegs (exec s0 cs)))" unfolding m by simp
    then show "h \<notin> memPtr ` set (occupiedSegs (exec s0 cs))" by simp
    have "h \<in> set (map memPtr (occupiedSegs s1))" unfolding m by simp
    then show "h \<in> memPtr ` set (occupiedSegs s1)" by simp
  }
  {
    assume r: "releaseMemory (exec s0 cs) h' = (Inr u, s2)"
    then have m: "map memPtr (occupiedSegs s2) = remove1 h' (map memPtr (occupiedSegs (exec s0 cs)))"
      by (rule releaseMemory_handles)
    then have "h' \<notin> set (map memPtr (occupiedSegs s2))" using d by simp
    then show "h' \<notin> memPtr ` set (occupiedSegs s2)" by simp
    obtain ptr1 rest1 where "dropWhile (\<lambda>q. memPtr q \<noteq> h') (occupiedSegs (exec s0 cs)) = ptr1 # rest1"
      using r by (rule releaseMemory_success)
    then have "ptr1 \<in> set (occupiedSegs (exec s0 cs))" "memPtr ptr1 = h'"
      by (auto simp: dropWhile_eq_Cons_conv) (metis in_set_conv_decomp)
    then show "h' \<in> memPtr ` set (occupiedSegs (exec s0 cs))" by auto
  }
qed

theorem handles_identify_segments_witness:
  "setupHeap 4096 True = Some \<lparr> simulatedHeap = 4096,
            availableSegs = [\<lparr> startAddr = 0, length_seg = 1024, memPtr = 0 \<rparr>],
            occupiedSegs = [] \<rparr>
   \<and> distinct (map memPtr (occupiedSegs (exec \<lparr> simulatedHeap = 4096,
            availableSegs = [\<lparr> startAddr = 0, length_seg = 1024, memPtr = 0 \<rparr>],
            occupiedSegs = [] \<rparr> [Request 100 True, Request 200 True])))
   \<and> requestMemory (exec \<lparr> simulatedHeap = 4096,
            availableSegs = [\<lparr> startAddr = 0, length_seg = 1024, memPtr = 0 \<rparr>],
            occupiedSegs = [] \<rparr> [Request 100 True, Request 200 True]) 50 True = (Inr 4396, \<lparr> simulatedHeap = 4096,
            availableSegs = [\<lparr> startAddr = 350, length_seg = 674, memPtr = 0 \<rparr>],
            occupiedSegs = [\<lparr> startAddr = 0, length_seg = 100, memPtr = 4096 \<rparr>,
                            \<lparr> startAddr = 100, length_seg = 200, memPtr = 4196 \<rparr>,
                            \<lparr> startAddr = 300, length_seg = 50, memPtr = 4396 \<rparr>] \<rparr>)
   \<and> 4396 \<notin> memPtr ` set (occupiedSegs (exec \<lparr> simulatedHeap = 4096,
            availableSegs = [\<lparr> startAddr = 0, length_seg = 1024, memPtr = 0 \<rparr>],
            occupiedSegs = [] \<rparr> [Request 100 True, Request 200 True]))
   \<and> releaseMemory (exec \<lparr> simulatedHeap = 4096,
            availableSegs = [\<lparr> startAddr = 0, length_seg = 1024, memPtr = 0 \<rparr>],
            occupiedSegs = [] \<rparr> [Request 100 True, Request 200 True]) 4096 = (Inr (), \<lparr> simulatedHeap = 4096,
            availableSegs = [\<lparr> startAddr = 0, length_seg = 100, memPtr = 4096 \<rparr>,
                             \<lparr> startAddr = 300, length_seg = 724, memPtr = 0 \<rparr>],
            occupiedSegs = [\<lparr> startAddr = 100, length_seg = 200, memPtr = 4196 \<rparr>] \<rparr>)
   \<and> 4096 \<notin> memPtr ` set (occupiedSegs \<lparr> simulatedHeap = 4096,
            availableSegs = [\<lparr> startAddr = 0, length_seg = 100, memPtr = 4096 \<rparr>,
                             \<lparr> startAddr = 300, length_seg = 724, memPtr = 0 \<rparr>],
            occupiedSegs = [\<lparr> startAddr = 100, length_seg = 200, memPtr = 4196 \<rparr>] \<rparr>)"
proof -
  have h: "setupHeap 4096 True = Some \<lparr> simulatedHeap = 4096,
            availableSegs = [\<lparr> startAddr = 0, length_seg = 1024, memPtr = 0 \<rparr>],
            occupiedSegs = [] \<rparr>"
    by (simp add: setupHeap_def)
  have r1: "requestMemory (exec \<lparr> simulatedHeap = 4096,
            availableSegs = [\<lparr> startAddr = 0, length_seg = 1024, memPtr = 0 \<rparr>],
            occupiedSegs = [] \<rparr> [Request 100 True, Request 200 True]) 50 True = (Inr 4396, \<lparr> simulatedHeap = 4096,
            availableSegs = [\<lparr> startAddr = 350, length_seg = 674, memPtr = 0 \<rparr>],
            occupiedSegs = [\<lparr> startAddr = 0, length_seg = 100, memPtr = 4096 \<rparr>,
                            \<lparr> startAddr = 100, length_seg = 200, memPtr = 4196 \<rparr>,
                            \<lparr> startAddr = 300, length_seg = 50, memPtr = 4396 \<rparr>] \<rparr>)"
    by (simp add: requestMemory_def Let_def)
  have r2: "releaseMemory (exec \<lparr> simulatedHeap = 4096,
            availableSegs = [\<lparr> startAddr = 0, length_seg = 1024, memPtr = 0 \<rparr>],
            occupiedSegs = [] \<rparr> [Request 100 True, Request 200 True]) 4096 = (Inr (), \<lparr> simulatedHeap = 4096,
            availableSegs = [\<lparr> startAddr = 0, length_seg = 100, memPtr = 4096 \<rparr>,
                             \<lparr> startAddr = 300, length_seg = 724, memPtr = 0 \<rparr>],
            occupiedSegs = [\<lparr> startAddr = 100, length_seg = 200, memPtr = 4196 \<rparr>] \<rparr>)"
    by (simp add: requestMemory_def releaseMemory_def combineFreeSegments_def Let_def)
  show ?thesis
    using handles_identify_segments[of 4096 True "\<lparr> simulatedHeap = 4096,
            availableSegs = [\<lparr> startAddr = 0, length_seg = 1024, memPtr = 0 \<rparr>],
            occupiedSegs = [] \<rparr>" "[Request 100 True, Request 200 True]"
        50 True 4396 "\<lparr> simulatedHeap = 4096,
            availableSegs = [\<lparr> startAddr = 350, length_seg = 674, memPtr = 0 \<rparr>],
            occupiedSegs = [\<lparr> startAddr = 0, length_seg = 100, memPtr = 4096 \<rparr>,
                            \<lparr> startAddr = 100, length_seg = 200, memPtr = 4196 \<rparr>,
                            \<lparr> startAddr = 300, length_seg = 50, memPtr = 4396 \<rparr>] \<rparr>" 4096 "()" "\<lparr> simulatedHeap = 4096,
            availableSegs = [\<lparr> startAddr = 0, length_seg = 100, memPtr = 4096 \<rparr>,
                             \<lparr> startAddr = 300, length_seg = 724, memPtr = 0 \<rparr>],
            occupiedSegs = [\<lparr> startAddr = 100, length_seg = 200, memPtr = 4196 \<rparr>] \<rparr>"] h r1 r2
    by (simp add: requestMemory_def Let_def)
qed

lemma combineSegs_prefix:
  "sorted_wrt gapped (before @ [y]) \<Longrightarrow> combineSegs (before @ y # ys) = before @ combineSegs (y # ys)"
proof (induction before rule: induct_list012)
  case 1
  then show ?case by simp
next
  case (2 b)
  then show ?case by (simp add: gapped_def)
next
  case (3 b b' bs)
  have "gapped b b'" using 3(3) by simp
  then have "combineSegs ((b # b' # bs) @ y # ys) = b # combineSegs ((b' # bs) @ y # ys)"
    by (simp add: gapped_def)
  moreover have "sorted_wrt gapped ((b' # bs) @ [y])" using 3(3) by simp
  ultimately show ?case using 3(2) by simp
qed

lemma combineSegs_gapped_id: "sorted_wrt gapped xs \<Longrightarrow> combineSegs xs = xs"
proof -
  assume "sorted_wrt gapped xs"
  then have "successively gapped xs" by (rule successively_if_sorted_wrt)
  then have "successively (\<lambda>x y. \<not> touching x y) xs"
    by (rule successively_mono) (simp add: gapped_def touching_def)
  then show ?thesis by (rule combineSegs_fixed)
qed

lemma inv_free_start_not_handle:
  assumes inv: "ledger_inv s" and c: "c \<in> set (availableSegs s)" and q: "q \<in> set (occupiedSegs s)"
  shows "memPtr q \<noteq> simulatedHeap s + startAddr c"
proof -
  have "0 < length_seg c" "0 < length_seg q" using inv c q by (auto simp: ledger_inv_def)
  then have a: "startAddr c \<in> segRange c" and b: "startAddr q \<in> segRange q" by (simp_all add: segRange_def)
  have "cover (availableSegs s) (startAddr c) + cover (occupiedSegs s) (startAddr c) \<le> 1"
    using inv by (simp add: ledger_inv_def cover_append[symmetric])
  moreover have "1 \<le> cover (availableSegs s) (startAddr c)" using c a by (rule cover_mem)
  ultimately have "cover (occupiedSegs s) (startAddr c) = 0" by simp
  then have "startAddr c \<notin> segRange q" using cover_mem[OF q, of "startAddr c"] by auto
  then have "startAddr q \<noteq> startAddr c" using b by auto
  moreover have "memPtr q = simulatedHeap s + startAddr q" using inv q by (simp add: ledger_inv_def)
  ultimately show ?thesis by simp
qed

section \<open>Request, then release\<close>

text \<open>
  Claim C6. In every state the program reaches, when \<open>requestMemory\<close> succeeds and
  returns \<open>h\<close>, \<open>releaseMemory\<close> of \<open>h\<close> right after it succeeds, the free list then
  holds the same ranges (start and length, in the same order) as before the request,
  and the allocated list is the one from before the request.
\<close>

theorem request_release_roundtrip:
  assumes init: "setupHeap heapPtr nodeOk = Some s0"
    and req: "requestMemory (exec s0 cs) n ok = (Inr h, s1)"
  shows "\<exists>s2. releaseMemory s1 h = (Inr (), s2)
          \<and> map segPair (availableSegs s2) = map segPair (availableSegs (exec s0 cs))
          \<and> occupiedSegs s2 = occupiedSegs (exec s0 cs)"
proof -
  define s where "s = exec s0 cs"
  have inv: "ledger_inv s" unfolding s_def using init by (rule exec_reach_inv)
  have base: "0 < simulatedHeap s" unfolding s_def using init by (rule reachable_base_pos)
  have req': "requestMemory s n ok = (Inr h, s1)" using req by (simp add: s_def)
  then obtain c rest where pos: "0 < n" and ok: "ok"
    and d: "dropWhile (\<lambda>p. n > length_seg p) (availableSegs s) = c # rest"
    by (rule requestMemory_success)
  define before where "before = takeWhile (\<lambda>p. n > length_seg p) (availableSegs s)"
  define mid where "mid = (if length_seg c = n then []
               else [c \<lparr> startAddr := startAddr c + n, length_seg := length_seg c - n \<rparr>])"
  define new where "new = \<lparr> startAddr = startAddr c, length_seg = n,
                 memPtr = simulatedHeap s + startAddr c \<rparr>"
  have av: "availableSegs s = before @ c # rest" and fit: "n \<le> length_seg c"
    using d by (auto simp: dropWhile_eq_Cons_conv before_def)
  have "requestMemory s n ok =
      (Inr (simulatedHeap s + startAddr c),
       s \<lparr> availableSegs := before @ mid @ rest, occupiedSegs := occupiedSegs s @ [new] \<rparr>)"
    unfolding before_def mid_def new_def by (rule requestMemory_ok[OF pos ok d])
  then have hh: "h = simulatedHeap s + startAddr c"
    and s1: "s1 = s \<lparr> availableSegs := before @ mid @ rest, occupiedSegs := occupiedSegs s @ [new] \<rparr>"
    using req' by simp_all
  have cin: "c \<in> set (availableSegs s)" by (simp add: av)
  have cb: "0 \<le> startAddr c" "0 < length_seg c" using inv_bounds[OF inv, of c] cin by simp_all
  have hnz: "h \<noteq> 0" using base cb(1) hh by simp
  have g: "sorted_wrt gapped (before @ c # rest)" using inv by (simp add: ledger_inv_def av)
  have gb: "sorted_wrt gapped before" and gr: "sorted_wrt gapped rest"
    and gbc: "\<forall>x \<in> set before. gapped x c" and gcr: "\<forall>y \<in> set rest. gapped c y"
    using g by (auto simp: sorted_wrt_append)
  have lenpos: "\<forall>x \<in> set before. 0 < length_seg x" using inv by (simp add: ledger_inv_def av)
  \<comment> \<open>the scan of the allocated list stops at the new node\<close>
  have "\<forall>q \<in> set (occupiedSegs s). memPtr q \<noteq> h"
    using inv_free_start_not_handle[OF inv cin] hh by simp
  then have tk: "takeWhile (\<lambda>q. memPtr q \<noteq> h) (occupiedSegs s1) = occupiedSegs s"
    and dr: "dropWhile (\<lambda>q. memPtr q \<noteq> h) (occupiedSegs s1) = [new]"
    by (simp_all add: s1 new_def hh)
  \<comment> \<open>the scan of the free list stops behind \<open>before\<close>\<close>
  have lt: "\<And>x. x \<in> set before \<Longrightarrow> startAddr x < startAddr new"
    using gbc lenpos by (fastforce simp: gapped_def new_def)
  have stop: "mid @ rest = [] \<or> \<not> startAddr (hd (mid @ rest)) < startAddr new"
  proof (cases "mid @ rest")
    case Nil
    then show ?thesis by simp
  next
    case (Cons y ys)
    have "startAddr new < startAddr y"
    proof (cases "length_seg c = n")
      case True
      then have "y \<in> set rest" using Cons by (simp add: mid_def)
      then show ?thesis using gcr cb(2) by (auto simp: gapped_def new_def)
    next
      case False
      then show ?thesis using Cons pos by (auto simp: mid_def new_def)
    qed
    then show ?thesis using Cons by simp
  qed
  have ftk: "takeWhile (\<lambda>x. startAddr x < startAddr new) (availableSegs s1) = before"
    using lt stop by (simp add: s1 takeWhile_eq_Nil_iff)
  have fdr: "dropWhile (\<lambda>x. startAddr x < startAddr new) (availableSegs s1) = mid @ rest"
    using lt stop dropWhile_eq_self_iff[of "\<lambda>x. startAddr x < startAddr new" "mid @ rest"]
    by (simp add: s1)
  have rel: "releaseMemory s1 h =
     (Inr (), s1 \<lparr> occupiedSegs := occupiedSegs s @ [],
                   availableSegs := combineSegs (before @ new # mid @ rest) \<rparr>)"
    using releaseMemory_ok[OF hnz dr] by (simp add: tk ftk fdr)
  \<comment> \<open>the coalescing pass\<close>
  define m where "m = new \<lparr> length_seg := length_seg c \<rparr>"
  have "sorted_wrt gapped (before @ [new])"
    using gb gbc by (auto simp: sorted_wrt_append gapped_def new_def)
  then have c1: "combineSegs (before @ new # mid @ rest) = before @ combineSegs (new # mid @ rest)"
    by (rule combineSegs_prefix)
  have gm: "sorted_wrt gapped (m # rest)" using gr gcr by (auto simp: gapped_def m_def new_def)
  have c2: "combineSegs (new # mid @ rest) = m # rest"
  proof (cases "length_seg c = n")
    case True
    then have "new # mid @ rest = m # rest" by (simp add: mid_def m_def new_def)
    then show ?thesis using combineSegs_gapped_id[OF gm] by simp
  next
    case False
    then have "combineSegs (new # mid @ rest) = combineSegs (m # rest)"
      by (simp add: mid_def m_def new_def)
    then show ?thesis using combineSegs_gapped_id[OF gm] by simp
  qed
  have "map segPair (before @ m # rest) = map segPair (availableSegs s)"
    by (simp add: av segPair_def m_def new_def)
  then show ?thesis
    unfolding s_def[symmetric] using rel c1 c2 by (simp add: s1)
qed


theorem request_release_roundtrip_witness:
  "setupHeap 4096 True = Some \<lparr> simulatedHeap = 4096,
            availableSegs = [\<lparr> startAddr = 0, length_seg = 1024, memPtr = 0 \<rparr>],
            occupiedSegs = [] \<rparr>
   \<and> requestMemory (exec \<lparr> simulatedHeap = 4096,
            availableSegs = [\<lparr> startAddr = 0, length_seg = 1024, memPtr = 0 \<rparr>],
            occupiedSegs = [] \<rparr> []) 100 True = (Inr 4096, \<lparr> simulatedHeap = 4096,
            availableSegs = [\<lparr> startAddr = 100, length_seg = 924, memPtr = 0 \<rparr>],
            occupiedSegs = [\<lparr> startAddr = 0, length_seg = 100, memPtr = 4096 \<rparr>] \<rparr>)
   \<and> releaseMemory \<lparr> simulatedHeap = 4096,
            availableSegs = [\<lparr> startAddr = 100, length_seg = 924, memPtr = 0 \<rparr>],
            occupiedSegs = [\<lparr> startAddr = 0, length_seg = 100, memPtr = 4096 \<rparr>] \<rparr> 4096 = (Inr (), \<lparr> simulatedHeap = 4096,
            availableSegs = [\<lparr> startAddr = 0, length_seg = 1024, memPtr = 4096 \<rparr>],
            occupiedSegs = [] \<rparr>)
   \<and> map segPair (availableSegs \<lparr> simulatedHeap = 4096,
            availableSegs = [\<lparr> startAddr = 0, length_seg = 1024, memPtr = 4096 \<rparr>],
            occupiedSegs = [] \<rparr>) = map segPair (availableSegs (exec \<lparr> simulatedHeap = 4096,
            availableSegs = [\<lparr> startAddr = 0, length_seg = 1024, memPtr = 0 \<rparr>],
            occupiedSegs = [] \<rparr> []))
   \<and> occupiedSegs \<lparr> simulatedHeap = 4096,
            availableSegs = [\<lparr> startAddr = 0, length_seg = 1024, memPtr = 4096 \<rparr>],
            occupiedSegs = [] \<rparr> = occupiedSegs (exec \<lparr> simulatedHeap = 4096,
            availableSegs = [\<lparr> startAddr = 0, length_seg = 1024, memPtr = 0 \<rparr>],
            occupiedSegs = [] \<rparr> [])"
proof -
  have h: "setupHeap 4096 True = Some \<lparr> simulatedHeap = 4096,
            availableSegs = [\<lparr> startAddr = 0, length_seg = 1024, memPtr = 0 \<rparr>],
            occupiedSegs = [] \<rparr>"
    by (simp add: setupHeap_def)
  have r: "requestMemory (exec \<lparr> simulatedHeap = 4096,
            availableSegs = [\<lparr> startAddr = 0, length_seg = 1024, memPtr = 0 \<rparr>],
            occupiedSegs = [] \<rparr> []) 100 True = (Inr 4096, \<lparr> simulatedHeap = 4096,
            availableSegs = [\<lparr> startAddr = 100, length_seg = 924, memPtr = 0 \<rparr>],
            occupiedSegs = [\<lparr> startAddr = 0, length_seg = 100, memPtr = 4096 \<rparr>] \<rparr>)"
    by (simp add: requestMemory_def Let_def)
  have f: "releaseMemory \<lparr> simulatedHeap = 4096,
            availableSegs = [\<lparr> startAddr = 100, length_seg = 924, memPtr = 0 \<rparr>],
            occupiedSegs = [\<lparr> startAddr = 0, length_seg = 100, memPtr = 4096 \<rparr>] \<rparr> 4096 = (Inr (), \<lparr> simulatedHeap = 4096,
            availableSegs = [\<lparr> startAddr = 0, length_seg = 1024, memPtr = 4096 \<rparr>],
            occupiedSegs = [] \<rparr>)"
    by (simp add: releaseMemory_def combineFreeSegments_def Let_def)
  show ?thesis using request_release_roundtrip[OF h r] h r f by simp
qed

end
